theory Spec2Isabelle
  imports Complex_Main "HOL-Library.AList"
begin

section \<open>Exceptions\<close>

text \<open>
  The classes of \<^verbatim>\<open>app/exceptions.py\<close> and the built-in and library exceptions the
  services catch by type. A raise is a value \<open>Inl e\<close> of a sum type. The context
  dictionary of a ScribeSnapError maps keys to strings or integers.
\<close>

datatype ctx_val = CStr string | CInt int

datatype exn =
    ConnectionError
  | TimeoutError
  | RetryError
  | OtherException string
  | CancelledError
  | SQLAlchemyError
  | IndexError
  | ValidationError string
  | FileStorageError string
  | LLMServiceError string "int option" "(string \<times> ctx_val) list"
  | CircuitBreakerOpenError int
  | DatabaseError string "(string \<times> ctx_val) list"

text \<open>
  \<open>isinstance(e, Exception)\<close>: every class above derives from \<open>Exception\<close> but
  \<open>asyncio.CancelledError\<close>, which derives from \<open>BaseException\<close> only.
\<close>

fun is_Exception :: "exn \<Rightarrow> bool" where
  "is_Exception CancelledError = False"
| "is_Exception e = True"

fun is_ScribeSnapError :: "exn \<Rightarrow> bool" where
  "is_ScribeSnapError (ValidationError m) = True"
| "is_ScribeSnapError (FileStorageError m) = True"
| "is_ScribeSnapError (LLMServiceError m r c) = True"
| "is_ScribeSnapError (CircuitBreakerOpenError t) = True"
| "is_ScribeSnapError (DatabaseError m c) = True"
| "is_ScribeSnapError e = False"

fun is_LLMServiceError :: "exn \<Rightarrow> bool" where
  "is_LLMServiceError (LLMServiceError m r c) = True"
| "is_LLMServiceError e = False"

fun is_CircuitBreakerOpenError :: "exn \<Rightarrow> bool" where
  "is_CircuitBreakerOpenError (CircuitBreakerOpenError t) = True"
| "is_CircuitBreakerOpenError e = False"

text \<open>\<open>type(e).__name__\<close>.\<close>

fun type_name :: "exn \<Rightarrow> string" where
  "type_name ConnectionError = ''ConnectionError''"
| "type_name TimeoutError = ''TimeoutError''"
| "type_name RetryError = ''RetryError''"
| "type_name (OtherException n) = n"
| "type_name CancelledError = ''CancelledError''"
| "type_name SQLAlchemyError = ''SQLAlchemyError''"
| "type_name IndexError = ''IndexError''"
| "type_name (ValidationError m) = ''ValidationError''"
| "type_name (FileStorageError m) = ''FileStorageError''"
| "type_name (LLMServiceError m r c) = ''LLMServiceError''"
| "type_name (CircuitBreakerOpenError t) = ''CircuitBreakerOpenError''"
| "type_name (DatabaseError m c) = ''DatabaseError''"

text \<open>
  \<open>LLMServiceError.__init__\<close>: the retry-after value is copied into the context only
  when it is truthy (neither \<open>None\<close> nor 0).
\<close>

definition new_LLMServiceError ::
  "string \<Rightarrow> int option \<Rightarrow> (string \<times> ctx_val) list \<Rightarrow> exn" where
  "new_LLMServiceError msg retry_after ctx =
     LLMServiceError msg retry_after
       (case retry_after of
          None \<Rightarrow> ctx
        | Some r \<Rightarrow> if r = 0 then ctx else ctx @ [(''retry_after'', CInt r)])"

section \<open>Circuit breaker\<close>

text \<open>
  \<^verbatim>\<open>CircuitBreaker\<close> of \<^verbatim>\<open>app/services/gemini_service.py\<close>. Timestamps are the
  values of \<open>time.time()\<close>, seconds as a real number; each operation that reads the
  clock takes the reading as its first argument. \<open>int(x)\<close> on a Python float truncates
  toward zero.
\<close>

definition py_int :: "real \<Rightarrow> int" where
  "py_int x = (if 0 \<le> x then \<lfloor>x\<rfloor> else \<lceil>x\<rceil>)"

datatype cb_state = CLOSED | OPEN | HALF_OPEN

record CircuitBreaker =
  failure_threshold :: int
  recovery_timeout :: int
  failure_count :: int
  state :: cb_state
  last_failure_time :: "real option"

definition new_CircuitBreaker :: "int \<Rightarrow> int \<Rightarrow> CircuitBreaker" where
  "new_CircuitBreaker threshold timeout =
     \<lparr>failure_threshold = threshold, recovery_timeout = timeout, failure_count = 0,
      state = CLOSED, last_failure_time = None\<rparr>"

text \<open>
  \<open>can_execute\<close> returns \<open>True\<close> (with the breaker, whose state it may have moved from
  OPEN to HALF\_OPEN) or raises \<open>CircuitBreakerOpenError(recovery_time=remaining)\<close>.
  \<open>self.last_failure_time or 0\<close> reads an unset time as 0.
\<close>

definition elapsed_since_failure :: "real \<Rightarrow> CircuitBreaker \<Rightarrow> real" where
  "elapsed_since_failure now cb =
     now - (case last_failure_time cb of None \<Rightarrow> 0 | Some t \<Rightarrow> t)"

definition can_execute :: "real \<Rightarrow> CircuitBreaker \<Rightarrow> exn + (bool \<times> CircuitBreaker)" where
  "can_execute now cb =
     (if state cb = CLOSED then Inr (True, cb)
      else if state cb = OPEN then
        (let elapsed = elapsed_since_failure now cb in
         if elapsed \<ge> real_of_int (recovery_timeout cb)
         then Inr (True, cb\<lparr>state := HALF_OPEN\<rparr>)
         else Inl (CircuitBreakerOpenError (py_int (real_of_int (recovery_timeout cb) - elapsed))))
      else Inr (True, cb))"

definition record_success :: "CircuitBreaker \<Rightarrow> CircuitBreaker" where
  "record_success cb = cb\<lparr>failure_count := 0, state := CLOSED, last_failure_time := None\<rparr>"

definition record_failure :: "real \<Rightarrow> CircuitBreaker \<Rightarrow> CircuitBreaker" where
  "record_failure now cb =
     (let cb1 = cb\<lparr>failure_count := failure_count cb + 1, last_failure_time := Some now\<rparr> in
      if state cb1 = HALF_OPEN then cb1\<lparr>state := OPEN\<rparr>
      else if failure_count cb1 \<ge> failure_threshold cb1 then cb1\<lparr>state := OPEN\<rparr>
      else cb1)"

text \<open>
  A run of consecutive \<open>record_failure\<close> calls, one per clock reading, in order (the
  loop \<open>for _ in range(n): cb.record_failure()\<close> of the tests).
\<close>

fun record_failures :: "real list \<Rightarrow> CircuitBreaker \<Rightarrow> CircuitBreaker" where
  "record_failures [] cb = cb"
| "record_failures (t # ts) cb = record_failures ts (record_failure t cb)"

section \<open>Notes, the session and the recorded effects\<close>

text \<open>
  A row of the \<open>notes\<close> table (\<^verbatim>\<open>app/models/note.py\<close>) with the columns the
  orchestrator writes. \<open>id\<close> and \<open>created_at\<close> are assigned by the database and are
  not written by the orchestrator; \<open>retry_count\<close> has the column default 0.
\<close>

record Note =
  image_path :: string
  parsed_text :: string
  status :: string
  error_message :: "string option"
  retry_count :: int

text \<open>
  Every effect of the pipeline is logged, in program order, in the \<open>trace\<close> of the
  world: the log is what the ordering and counting properties are stated on.
\<close>

datatype event =
    FileStored string
  | NoteAdded
  | Flushed "Note option"
  | FlushFailed
  | ApiCall nat
  | RecordSuccess
  | RecordFailure
  | FileCleaned string

text \<open>
  The world of one request: the shared circuit breaker of the Gemini service, the
  files on disk, the Note object the session tracks (\<open>db.add\<close>), the row as the last
  successful \<open>db.flush()\<close> wrote it, the number of flushes so far, and the log.
\<close>

record World =
  breaker :: CircuitBreaker
  files :: "string list"
  session_note :: "Note option"
  db_row :: "Note option"
  flush_calls :: nat
  trace :: "event list"

text \<open>
  What the collaborators answer during one request: the outcome of
  \<open>file_service.validate_and_store\<close> (an exception, or the absolute and the relative
  path), whether the k-th \<open>db.flush()\<close> succeeds, the outcome of the body of
  \<open>_call_gemini_with_retry\<close> at each attempt (numbered from 1: an exception of the SDK
  or the extracted text), \<open>settings.retry_max_attempts\<close>, the clock readings of
  \<open>can_execute\<close> and \<open>record_failure\<close>, and the request id.
\<close>

record Env =
  validate_and_store_result :: "exn + (string \<times> string)"
  flush_ok :: "nat \<Rightarrow> bool"
  api :: "nat \<Rightarrow> exn + string"
  retry_max_attempts :: int
  now_check :: real
  now_fail :: real
  request_id :: string

section \<open>Gemini service: retry and circuit breaker around the API call\<close>

text \<open>
  The \<open>@retry\<close> decorator of \<open>_call_gemini_with_retry\<close>, with the arguments the source
  gives it. \<open>retry_if_exception_type((ConnectionError, TimeoutError, Exception))\<close> is an
  \<open>isinstance\<close> test against the tuple; \<open>stop_after_attempt(n)\<close> stops once the attempt
  number has reached \<open>n\<close>; \<open>reraise=True\<close> makes the decorator raise the last attempt's
  own exception when it stops (not a \<open>RetryError\<close> wrapping it).
\<close>

definition retry_if_exception_type :: "exn \<Rightarrow> bool" where
  "retry_if_exception_type e = (e = ConnectionError \<or> e = TimeoutError \<or> is_Exception e)"

definition stop_after_attempt :: "int \<Rightarrow> nat \<Rightarrow> bool" where
  "stop_after_attempt max_attempt_number attempt_number =
     (int attempt_number \<ge> max_attempt_number)"

function call_gemini_with_retry :: "Env \<Rightarrow> nat \<Rightarrow> World \<Rightarrow> (exn + string) \<times> World" where
  "call_gemini_with_retry env n w =
     (let w1 = w\<lparr>trace := trace w @ [ApiCall n]\<rparr> in
      case api env n of
        Inr s \<Rightarrow> (Inr s, w1)
      | Inl e \<Rightarrow>
          if retry_if_exception_type e \<and> \<not> stop_after_attempt (retry_max_attempts env) n
          then call_gemini_with_retry env (Suc n) w1
          else (Inl e, w1))"
  by pat_completeness auto
termination
  by (relation "measure (\<lambda>(env, n, w). nat (retry_max_attempts env - int n))")
     (auto simp: stop_after_attempt_def)

declare call_gemini_with_retry.simps [simp del]

definition exhausted_message :: string where
  "exhausted_message =
     ''AI text extraction failed after multiple attempts. Please try again later.''"

definition unexpected_message :: string where
  "unexpected_message = ''An unexpected error occurred during text extraction.''"

definition breaker_record_success :: "World \<Rightarrow> World" where
  "breaker_record_success w =
     w\<lparr>breaker := record_success (breaker w), trace := trace w @ [RecordSuccess]\<rparr>"

definition breaker_record_failure :: "Env \<Rightarrow> World \<Rightarrow> World" where
  "breaker_record_failure env w =
     w\<lparr>breaker := record_failure (now_fail env) (breaker w),
       trace := trace w @ [RecordFailure]\<rparr>"

text \<open>
  \<open>GeminiService.parse_image\<close>: the breaker check, outside the retried function; then
  the \<open>try\<close> with its three \<open>except\<close> clauses in the source's order. An exception
  that is not an \<open>Exception\<close> passes through all three.
\<close>

definition parse_image :: "Env \<Rightarrow> string \<Rightarrow> World \<Rightarrow> (exn + string) \<times> World" where
  "parse_image env img_path w =
     (case can_execute (now_check env) (breaker w) of
        Inl e \<Rightarrow> (Inl e, w)
      | Inr (ok, cb1) \<Rightarrow>
          (case call_gemini_with_retry env 1 (w\<lparr>breaker := cb1\<rparr>) of
             (Inr result, w1) \<Rightarrow> (Inr result, breaker_record_success w1)
           | (Inl e, w1) \<Rightarrow>
               if is_CircuitBreakerOpenError e then (Inl e, w1)
               else if e = RetryError then
                 (Inl (new_LLMServiceError exhausted_message
                         (Some (recovery_timeout (breaker w1)))
                         [(''request_id'', CStr (request_id env)),
                          (''attempts'', CInt (retry_max_attempts env))]),
                  breaker_record_failure env w1)
               else if is_Exception e then
                 (Inl (new_LLMServiceError unexpected_message None
                         [(''request_id'', CStr (request_id env)),
                          (''error_type'', CStr (type_name e))]),
                  breaker_record_failure env w1)
               else (Inl e, w1)))"

section \<open>Note service: the orchestrator\<close>

definition validate_and_store :: "Env \<Rightarrow> World \<Rightarrow> (exn + (string \<times> string)) \<times> World" where
  "validate_and_store env w =
     (case validate_and_store_result env of
        Inl e \<Rightarrow> (Inl e, w)
      | Inr (absolute_path, relative_path) \<Rightarrow>
          (Inr (absolute_path, relative_path),
           w\<lparr>files := absolute_path # files w,
             trace := trace w @ [FileStored absolute_path]\<rparr>))"

text \<open>\<open>file_service.cleanup_file\<close>: removes the file if it is there; never raises.\<close>

definition cleanup_file :: "string \<Rightarrow> World \<Rightarrow> World" where
  "cleanup_file p w =
     w\<lparr>files := removeAll p (files w), trace := trace w @ [FileCleaned p]\<rparr>"

definition db_add :: "Note \<Rightarrow> World \<Rightarrow> World" where
  "db_add n w = w\<lparr>session_note := Some n, trace := trace w @ [NoteAdded]\<rparr>"

definition db_flush :: "Env \<Rightarrow> World \<Rightarrow> (exn + unit) \<times> World" where
  "db_flush env w =
     (let w1 = w\<lparr>flush_calls := Suc (flush_calls w)\<rparr> in
      if flush_ok env (flush_calls w)
      then (Inr (), w1\<lparr>db_row := session_note w1,
                        trace := trace w1 @ [Flushed (session_note w1)]\<rparr>)
      else (Inl SQLAlchemyError, w1\<lparr>trace := trace w1 @ [FlushFailed]\<rparr>))"

record NoteResponse =
  image_url :: string
  resp_text :: string
  resp_status :: string
  resp_error :: "string option"

record ParseResponse =
  message :: string
  resp_parsed_text :: string
  resp_note :: NoteResponse

fun message_of :: "exn \<Rightarrow> string" where
  "message_of (ValidationError m) = m"
| "message_of (FileStorageError m) = m"
| "message_of (LLMServiceError m r c) = m"
| "message_of (DatabaseError m c) = m"
| "message_of e = []"

definition processing_failed_message :: string where
  "processing_failed_message =
     ''An error occurred while processing your note. Please try again.''"

text \<open>
  The two \<open>except\<close> clauses of \<open>parse_note\<close>, with the values of the locals
  \<open>absolute_path\<close> and \<open>note\<close> at the raise. The first clause catches
  \<open>LLMServiceError\<close> only; a failure of its own flush is logged and dropped. The second
  catches every other \<open>Exception\<close>.
\<close>

definition parse_note_except ::
  "Env \<Rightarrow> exn \<Rightarrow> string option \<Rightarrow> Note option \<Rightarrow> World \<Rightarrow> (exn + ParseResponse) \<times> World" where
  "parse_note_except env e absolute_path note_var w =
     (if is_LLMServiceError e then
        (case note_var of
           None \<Rightarrow> (Inl e, w)
         | Some n \<Rightarrow>
             (let n1 = n\<lparr>status := ''failed'', error_message := Some (message_of e),
                         retry_count := retry_count n + 1\<rparr>;
                  w1 = w\<lparr>session_note := Some n1\<rparr>
              in (Inl e, snd (db_flush env w1))))
      else if is_Exception e then
        (let w1 = (case absolute_path of
                     None \<Rightarrow> w
                   | Some p \<Rightarrow> if p = [] then w else cleanup_file p w)
         in if is_ScribeSnapError e then (Inl e, w1)
            else (Inl (DatabaseError processing_failed_message
                         [(''original_error'', CStr (type_name e))]), w1))
      else (Inl e, w))"

definition parse_note :: "Env \<Rightarrow> World \<Rightarrow> (exn + ParseResponse) \<times> World" where
  "parse_note env w =
     (case validate_and_store env w of
        (Inl e, w1) \<Rightarrow> parse_note_except env e None None w1
      | (Inr (absolute_path, relative_path), w1) \<Rightarrow>
          (let n = \<lparr>image_path = relative_path, parsed_text = [],
                    status = ''processing'', error_message = None, retry_count = 0\<rparr>
           in case db_flush env (db_add n w1) of
                (Inl e, w2) \<Rightarrow> parse_note_except env e (Some absolute_path) (Some n) w2
              | (Inr u, w2) \<Rightarrow>
                  (case parse_image env absolute_path w2 of
                     (Inl e, w3) \<Rightarrow> parse_note_except env e (Some absolute_path) (Some n) w3
                   | (Inr txt, w3) \<Rightarrow>
                       (let n1 = n\<lparr>parsed_text := txt, status := ''completed''\<rparr> in
                        case db_flush env (w3\<lparr>session_note := Some n1\<rparr>) of
                          (Inl e, w4) \<Rightarrow>
                            parse_note_except env e (Some absolute_path) (Some n1) w4
                        | (Inr u, w4) \<Rightarrow>
                            (Inr \<lparr>message = ''Note parsed successfully'',
                                  resp_parsed_text = txt,
                                  resp_note =
                                    \<lparr>image_url = ''/api/files/'' @ relative_path,
                                     resp_text = parsed_text n1,
                                     resp_status = status n1,
                                     resp_error = error_message n1\<rparr>\<rparr>, w4)))))"

section \<open>Rate limiting middleware\<close>

text \<open>
  \<^verbatim>\<open>RateLimitMiddleware\<close> of \<^verbatim>\<open>app/middleware/rate_limit.py\<close>. The dictionary
  \<open>_requests\<close> from client IP to its list of request timestamps is an association list
  in insertion order; it is a \<open>defaultdict(list)\<close>, so reading a missing key gives the
  empty list. \<open>settings.rate_limit_requests\<close> and \<open>settings.rate_limit_window\<close> are the
  first two arguments of \<open>dispatch\<close>, the reading of \<open>time.time()\<close> the fourth.
\<close>

type_synonym limiter = "(string \<times> real list) list"

record Request =
  url_path :: string
  client_host :: "string option"

datatype response = CallNext | TooManyRequests int

definition EXCLUDED_PATHS :: "string list" where
  "EXCLUDED_PATHS = [''/health'', ''/docs'', ''/openapi.json'', ''/redoc'']"

definition timestamps_of :: "limiter \<Rightarrow> string \<Rightarrow> real list" where
  "timestamps_of reqs ip = (case map_of reqs ip of None \<Rightarrow> [] | Some tss \<Rightarrow> tss)"

definition client_ip_of :: "Request \<Rightarrow> string" where
  "client_ip_of request = (case client_host request of None \<Rightarrow> ''unknown'' | Some h \<Rightarrow> h)"

text \<open>
  \<open>_cleanup_inactive_ips\<close>: drops every IP whose list is empty or whose newest
  timestamp is before the window.
\<close>

definition inactive :: "real \<Rightarrow> real list \<Rightarrow> bool" where
  "inactive window_start tss = (if tss = [] then True else Max (set tss) < window_start)"

definition cleanup_inactive_ips :: "real \<Rightarrow> limiter \<Rightarrow> limiter" where
  "cleanup_inactive_ips window_start reqs =
     filter (\<lambda>(ip, tss). \<not> inactive window_start tss) reqs"

text \<open>
  \<open>dispatch\<close>: the response (or the \<open>IndexError\<close> of \<open>self._requests[client_ip][0]\<close> on
  an empty list, possible only with a limit below 1) and the dictionary afterwards.
\<close>

definition dispatch ::
  "int \<Rightarrow> int \<Rightarrow> Request \<Rightarrow> real \<Rightarrow> limiter \<Rightarrow> (exn + response) \<times> limiter" where
  "dispatch rate_limit_requests rate_limit_window request now reqs =
     (if url_path request \<in> set EXCLUDED_PATHS then (Inr CallNext, reqs)
      else
        (let client_ip = client_ip_of request;
             window_start = now - real_of_int rate_limit_window;
             pruned = filter (\<lambda>ts. ts > window_start) (timestamps_of reqs client_ip);
             reqs1 = AList.update client_ip pruned reqs
         in if int (length pruned) \<ge> rate_limit_requests then
              (case pruned of
                 [] \<Rightarrow> (Inl IndexError, reqs1)
               | oldest # later \<Rightarrow>
                   (Inr (TooManyRequests
                          (py_int (oldest + real_of_int rate_limit_window - now) + 1)),
                    reqs1))
            else
              (let reqs2 = AList.update client_ip (pruned @ [now]) reqs1;
                   reqs3 = (if sum_list (map (\<lambda>(ip, tss). length tss) reqs2) mod 1000 = 0
                            then cleanup_inactive_ips window_start reqs2 else reqs2)
               in (Inr CallNext, reqs3))))"

text \<open>A run of requests of one client, one per clock reading, in order.\<close>

fun dispatch_all ::
  "int \<Rightarrow> int \<Rightarrow> Request \<Rightarrow> real list \<Rightarrow> limiter \<Rightarrow> (exn + response) list \<times> limiter" where
  "dispatch_all n w request [] reqs = ([], reqs)"
| "dispatch_all n w request (t # ts) reqs =
     (case dispatch n w request t reqs of
        (r, reqs1) \<Rightarrow>
          (case dispatch_all n w request ts reqs1 of
             (rs, reqs2) \<Rightarrow> (r # rs, reqs2)))"

section \<open>Note service: listing with a cursor\<close>

text \<open>
  \<open>NoteService.list_notes\<close>. A row of the table carries its id and creation time (a
  \<open>datetime\<close>, here its microsecond count). \<open>datetime.fromisoformat\<close> (\<open>None\<close> where it
  raises \<open>ValueError\<close>) and \<open>datetime.isoformat\<close> are library functions and are passed
  in. The database answers a query with the matching rows in the requested order, or
  raises; among rows of equal creation time the order is the database's, and the model
  keeps the stored order.
\<close>

type_synonym datetime = int

record NoteRow =
  row_id :: nat
  row_image_path :: string
  row_parsed_text :: string
  row_created_at :: datetime
  row_status :: string

record NoteListItem =
  item_id :: nat
  item_image_url :: string
  text_preview :: string
  item_created_at :: datetime
  item_status :: string

record NoteListResponse =
  items :: "NoteListItem list"
  total_count :: nat
  next_cursor :: "string option"
  has_more :: bool

record Database =
  table_rows :: "NoteRow list"
  available :: bool

definition parse_date :: "(string \<Rightarrow> datetime option) \<Rightarrow> string option \<Rightarrow> datetime option" where
  "parse_date fromisoformat s =
     (case s of None \<Rightarrow> None | Some c \<Rightarrow> if c = [] then None else fromisoformat c)"

definition cursor_clause :: "string \<Rightarrow> datetime option \<Rightarrow> NoteRow \<Rightarrow> bool" where
  "cursor_clause sort_by cursor_dt r =
     (case cursor_dt of
        None \<Rightarrow> True
      | Some d \<Rightarrow> if sort_by = ''created_at_desc'' then row_created_at r < d
                  else row_created_at r > d)"

definition date_clauses :: "datetime option \<Rightarrow> datetime option \<Rightarrow> NoteRow \<Rightarrow> bool" where
  "date_clauses from_dt to_dt r =
     ((case from_dt of None \<Rightarrow> True | Some d \<Rightarrow> row_created_at r \<ge> d)
      \<and> (case to_dt of None \<Rightarrow> True | Some d \<Rightarrow> row_created_at r \<le> d))"

definition order_by_created_at :: "string \<Rightarrow> NoteRow list \<Rightarrow> NoteRow list" where
  "order_by_created_at sort_by rs =
     (if sort_by = ''created_at_asc'' then sort_key row_created_at rs
      else rev (sort_key row_created_at rs))"

definition to_item :: "NoteRow \<Rightarrow> NoteListItem" where
  "to_item r =
     \<lparr>item_id = row_id r,
      item_image_url = ''/api/files/'' @ row_image_path r,
      text_preview = take 200 (row_parsed_text r),
      item_created_at = row_created_at r,
      item_status = row_status r\<rparr>"

definition list_notes ::
  "(string \<Rightarrow> datetime option) \<Rightarrow> (datetime \<Rightarrow> string) \<Rightarrow> Database \<Rightarrow> nat \<Rightarrow> string option
   \<Rightarrow> string option \<Rightarrow> string option \<Rightarrow> string \<Rightarrow> exn + NoteListResponse" where
  "list_notes fromisoformat isoformat db limit cursor from_date to_date sort_by =
     (let cursor_dt = parse_date fromisoformat cursor;
          from_dt = parse_date fromisoformat from_date;
          to_dt = parse_date fromisoformat to_date
      in if \<not> available db then
           Inl (DatabaseError ''Could not retrieve notes. Please try again.''
                  [(''error_type'', CStr (type_name SQLAlchemyError))])
         else
           (let found = take (limit + 1)
                          (order_by_created_at sort_by
                             (filter (\<lambda>r. cursor_clause sort_by cursor_dt r
                                            \<and> date_clauses from_dt to_dt r)
                                (table_rows db)));
                count = length (filter (date_clauses from_dt to_dt) (table_rows db));
                more = (length found > limit);
                page = (if more then take limit found else found)
            in Inr \<lparr>items = map to_item page,
                    total_count = count,
                    next_cursor = (if more \<and> page \<noteq> []
                                   then Some (isoformat (row_created_at (last page)))
                                   else None),
                    has_more = more\<rparr>))"

section \<open>Properties of the circuit breaker\<close>

lemma record_failure_params:
  "failure_threshold (record_failure t cb) = failure_threshold cb"
  "recovery_timeout (record_failure t cb) = recovery_timeout cb"
  "failure_count (record_failure t cb) = failure_count cb + 1"
  "last_failure_time (record_failure t cb) = Some t"
  by (simp_all add: record_failure_def Let_def)

lemma record_failures_params:
  "failure_threshold (record_failures ts cb) = failure_threshold cb"
  "recovery_timeout (record_failures ts cb) = recovery_timeout cb"
  "failure_count (record_failures ts cb) = failure_count cb + int (length ts)"
  by (induction ts arbitrary: cb) (simp_all add: record_failure_params)

lemma record_failures_snoc:
  "record_failures (ts @ [t]) cb = record_failure t (record_failures ts cb)"
  by (induction ts arbitrary: cb) simp_all

lemma record_failures_stay_closed:
  "state cb = CLOSED \<Longrightarrow> failure_count cb + int (length ts) < failure_threshold cb
   \<Longrightarrow> state (record_failures ts cb) = CLOSED"
proof (induction ts arbitrary: cb)
  case Nil
  then show ?case by simp
next
  case (Cons t ts)
  have "state (record_failure t cb) = CLOSED"
    using Cons.prems by (simp add: record_failure_def Let_def)
  moreover have "failure_count (record_failure t cb) + int (length ts)
      < failure_threshold (record_failure t cb)"
    using Cons.prems by (simp add: record_failure_params)
  ultimately show ?case using Cons.IH by simp
qed

lemmas breaker_defs = can_execute_def record_failure_def record_success_def
  new_CircuitBreaker_def elapsed_since_failure_def py_int_def

lemma half_open_admits_every_call:
  "state cb = HALF_OPEN \<Longrightarrow> can_execute now cb = Inr (True, cb)"
  by (simp add: can_execute_def)

lemma record_failures_open_at_threshold:
  assumes "state cb = CLOSED" and "ts \<noteq> []"
    and "failure_count cb + int (length ts) = failure_threshold cb"
  shows "state (record_failures ts cb) = OPEN
         \<and> last_failure_time (record_failures ts cb) = Some (last ts)"
proof -
  obtain us t where ts: "ts = us @ [t]"
    using assms(2) by (metis append_butlast_last_id)
  let ?cb1 = "record_failures us cb"
  have c: "state ?cb1 = CLOSED"
    using assms(1,3) ts by (intro record_failures_stay_closed) simp_all
  have n: "failure_count ?cb1 + 1 = failure_threshold ?cb1"
    using assms(3) ts by (simp add: record_failures_params)
  have "state (record_failure t ?cb1) = OPEN"
    using c n by (simp add: record_failure_def Let_def)
  then show ?thesis
    using ts by (simp add: record_failures_snoc record_failure_params)
qed

lemma parse_image_rejected:
  "can_execute (now_check env) (breaker w) = Inl e \<Longrightarrow> parse_image env p w = (Inl e, w)"
  by (simp add: parse_image_def)

text \<open>
  Claim C5. Starting from a new breaker (CLOSED, no failures), after any run of at most
  \<open>failure_threshold - 1\<close> recorded failures the breaker is CLOSED and \<open>can_execute\<close>
  returns \<open>True\<close> without changing it. After a run of exactly \<open>failure_threshold\<close>
  failures (at least one) the breaker is OPEN with \<open>last_failure_time\<close> the time of the
  last failure, and every \<open>can_execute\<close> at a time less than \<open>recovery_timeout\<close> after it
  raises \<open>CircuitBreakerOpenError\<close> carrying \<open>int(recovery_timeout - elapsed)\<close>;
  \<open>parse_image\<close> then raises the same error and leaves the world as it was: no API call
  is logged.
\<close>

theorem breaker_closed_below_threshold_open_at_threshold:
  assumes "breaker w = record_failures ts (new_CircuitBreaker th rt)"
  shows "(int (length ts) \<le> th - 1 \<longrightarrow>
            state (breaker w) = CLOSED
            \<and> can_execute (now_check env) (breaker w) = Inr (True, breaker w))
       \<and> (ts \<noteq> [] \<and> int (length ts) = th \<longrightarrow>
            state (breaker w) = OPEN
            \<and> last_failure_time (breaker w) = Some (last ts)
            \<and> (now_check env - last ts < real_of_int rt \<longrightarrow>
                 can_execute (now_check env) (breaker w)
                   = Inl (CircuitBreakerOpenError
                            (py_int (real_of_int rt - (now_check env - last ts))))
                 \<and> parse_image env p w
                   = (Inl (CircuitBreakerOpenError
                             (py_int (real_of_int rt - (now_check env - last ts)))), w)))"
proof (intro conjI impI)
  let ?cb0 = "new_CircuitBreaker th rt"
  have init: "state ?cb0 = CLOSED" "failure_count ?cb0 = 0" "failure_threshold ?cb0 = th"
    "recovery_timeout ?cb0 = rt"
    by (simp_all add: new_CircuitBreaker_def)
  {
    assume len: "int (length ts) \<le> th - 1"
    show closed: "state (breaker w) = CLOSED"
      unfolding assms using init len by (intro record_failures_stay_closed) simp_all
    show "can_execute (now_check env) (breaker w) = Inr (True, breaker w)"
      using closed by (simp add: can_execute_def)
  }
  {
    assume len: "ts \<noteq> [] \<and> int (length ts) = th"
    have op: "state (breaker w) = OPEN \<and> last_failure_time (breaker w) = Some (last ts)"
      unfolding assms using init len by (intro record_failures_open_at_threshold) simp_all
    show "state (breaker w) = OPEN" using op by simp
    show "last_failure_time (breaker w) = Some (last ts)" using op by simp
    have rt: "recovery_timeout (breaker w) = rt"
      unfolding assms using init by (simp add: record_failures_params)
    assume early: "now_check env - last ts < real_of_int rt"
    show rej: "can_execute (now_check env) (breaker w)
        = Inl (CircuitBreakerOpenError (py_int (real_of_int rt - (now_check env - last ts))))"
      using op rt early by (simp add: can_execute_def elapsed_since_failure_def Let_def)
    show "parse_image env p w
        = (Inl (CircuitBreakerOpenError
                  (py_int (real_of_int rt - (now_check env - last ts)))), w)"
      using rej by (rule parse_image_rejected)
  }
qed


theorem breaker_closed_below_threshold_open_at_threshold_witness:
  "state (record_failures [1, 2, 3, 4] (new_CircuitBreaker 5 60)) = CLOSED
   \<and> state (record_failures [1, 2, 3, 4, 5] (new_CircuitBreaker 5 60)) = OPEN
   \<and> parse_image
        \<lparr>validate_and_store_result = Inr (''/s/a.png'', ''a.png''), flush_ok = (\<lambda>k. True),
         api = (\<lambda>n. Inr ''text''), retry_max_attempts = 3, now_check = 10, now_fail = 11,
         request_id = ''r1''\<rparr> ''/s/a.png''
        \<lparr>breaker = record_failures [1, 2, 3, 4, 5] (new_CircuitBreaker 5 60), files = [],
         session_note = None, db_row = None, flush_calls = 0, trace = []\<rparr>
      = (Inl (CircuitBreakerOpenError 55),
         \<lparr>breaker = record_failures [1, 2, 3, 4, 5] (new_CircuitBreaker 5 60), files = [],
          session_note = None, db_row = None, flush_calls = 0, trace = []\<rparr>)"
proof -
  let ?env = "\<lparr>validate_and_store_result = Inr (''/s/a.png'', ''a.png''),
         flush_ok = (\<lambda>k. True),
         api = (\<lambda>n. Inr ''text''), retry_max_attempts = 3, now_check = 10, now_fail = 11,
         request_id = ''r1''\<rparr>"
  let ?w4 = "\<lparr>breaker = record_failures [1, 2, 3, 4] (new_CircuitBreaker 5 60), files = [],
         session_note = None, db_row = None, flush_calls = 0, trace = []\<rparr>"
  let ?w5 = "\<lparr>breaker = record_failures [1, 2, 3, 4, 5] (new_CircuitBreaker 5 60), files = [],
         session_note = None, db_row = None, flush_calls = 0, trace = []\<rparr>"
  have a: "state (breaker ?w4) = CLOSED"
    using breaker_closed_below_threshold_open_at_threshold
      [of ?w4 "[1, 2, 3, 4]" 5 60 ?env "''/s/a.png''"]
    by simp
  have b: "state (breaker ?w5) = OPEN
      \<and> parse_image ?env ''/s/a.png'' ?w5 = (Inl (CircuitBreakerOpenError 55), ?w5)"
    using breaker_closed_below_threshold_open_at_threshold
      [of ?w5 "[1, 2, 3, 4, 5]" 5 60 ?env "''/s/a.png''"]
    by (simp add: py_int_def)
  from a b show ?thesis by simp
qed

text \<open>
  Claim C10. When the breaker is OPEN and the recovery timeout has not elapsed,
  \<open>can_execute\<close> raises \<open>CircuitBreakerOpenError\<close> whose \<open>recovery_time\<close> is the floor of
  the remaining time \<open>recovery_timeout - elapsed\<close> (the remaining time is positive, so
  truncation toward zero is the floor); with less than one second remaining the error
  carries 0.
\<close>

theorem open_rejection_recovery_time_truncated:
  assumes "state cb = OPEN"
    and "elapsed_since_failure now cb < real_of_int (recovery_timeout cb)"
  shows "can_execute now cb =
           Inl (CircuitBreakerOpenError
                  \<lfloor>real_of_int (recovery_timeout cb) - elapsed_since_failure now cb\<rfloor>)
         \<and> (real_of_int (recovery_timeout cb) - elapsed_since_failure now cb < 1
              \<longrightarrow> can_execute now cb = Inl (CircuitBreakerOpenError 0))"
proof -
  let ?r = "real_of_int (recovery_timeout cb) - elapsed_since_failure now cb"
  have pos: "0 < ?r" using assms(2) by simp
  have rej: "can_execute now cb = Inl (CircuitBreakerOpenError \<lfloor>?r\<rfloor>)"
    using assms pos by (simp add: can_execute_def py_int_def Let_def)
  have "?r < 1 \<Longrightarrow> \<lfloor>?r\<rfloor> = 0"
    using pos by (simp add: floor_eq_iff)
  with rej show ?thesis by simp
qed

theorem open_rejection_recovery_time_truncated_witness:
  "state (record_failures [1, 2, 3, 4, 5] (new_CircuitBreaker 5 60)) = OPEN
   \<and> can_execute (129 / 2) (record_failures [1, 2, 3, 4, 5] (new_CircuitBreaker 5 60))
       = Inl (CircuitBreakerOpenError 0)"
proof -
  let ?cb = "record_failures [1, 2, 3, 4, 5] (new_CircuitBreaker 5 60)"
  have s: "state ?cb = OPEN"
    by (simp add: record_failure_def new_CircuitBreaker_def)
  have e: "elapsed_since_failure (129 / 2) ?cb < real_of_int (recovery_timeout ?cb)"
    by (simp add: record_failure_def new_CircuitBreaker_def elapsed_since_failure_def)
  have "real_of_int (recovery_timeout ?cb) - elapsed_since_failure (129 / 2) ?cb < 1"
    by (simp add: record_failure_def new_CircuitBreaker_def elapsed_since_failure_def)
  with open_rejection_recovery_time_truncated [OF s e] s show ?thesis by blast
qed

text \<open>
  Claim C2. The claim asks that a second \<open>can_execute\<close> during a HALF\_OPEN probe be
  rejected like an OPEN breaker. The code keeps no record of a probe in flight: in
  HALF\_OPEN every call is admitted. Five failures (times 1 to 5) open a breaker with
  threshold 5 and timeout 60; the call at time 65 moves it to HALF\_OPEN and is
  admitted, and so is the call at time 66, before any \<open>record_success\<close> or
  \<open>record_failure\<close>.
\<close>

theorem half_open_admits_second_call:
  "can_execute 65 (record_failures [1, 2, 3, 4, 5] (new_CircuitBreaker 5 60))
     = Inr (True, \<lparr>failure_threshold = 5, recovery_timeout = 60, failure_count = 5,
                   state = HALF_OPEN, last_failure_time = Some 5\<rparr>)
   \<and> can_execute 66 \<lparr>failure_threshold = 5, recovery_timeout = 60, failure_count = 5,
                      state = HALF_OPEN, last_failure_time = Some 5\<rparr>
     = Inr (True, \<lparr>failure_threshold = 5, recovery_timeout = 60, failure_count = 5,
                   state = HALF_OPEN, last_failure_time = Some 5\<rparr>)"
  by (simp add: breaker_defs)

lemmas note_defs = parse_note_def parse_note_except_def validate_and_store_def
  db_add_def db_flush_def cleanup_file_def

section \<open>Properties of the retry loop\<close>

lemma call_gemini_with_retry_char:
  "\<exists>k. call_gemini_with_retry env n w
         = (api env (n + k), w\<lparr>trace := trace w @ map ApiCall [n..<Suc (n + k)]\<rparr>)
       \<and> (\<forall>j. n \<le> j \<and> j < n + k \<longrightarrow>
             (\<exists>e. api env j = Inl e \<and> retry_if_exception_type e
                  \<and> int j < retry_max_attempts env))
       \<and> (\<forall>e. api env (n + k) = Inl e \<longrightarrow>
             \<not> retry_if_exception_type e \<or> retry_max_attempts env \<le> int (n + k))"
proof (induction env n w rule: call_gemini_with_retry.induct)
  case (1 env n w)
  let ?w1 = "w\<lparr>trace := trace w @ [ApiCall n]\<rparr>"
  show ?case
  proof (cases "api env n")
    case (Inr s)
    then have "call_gemini_with_retry env n w = (api env (n + 0), ?w1)"
      by (simp add: call_gemini_with_retry.simps [of env n w] Let_def)
    then show ?thesis using Inr
      by (intro exI [of _ 0]) auto
  next
    case (Inl e)
    show ?thesis
    proof (cases "retry_if_exception_type e
        \<and> \<not> stop_after_attempt (retry_max_attempts env) n")
      case False
      then have "call_gemini_with_retry env n w = (api env (n + 0), ?w1)"
        using Inl by (auto simp: call_gemini_with_retry.simps [of env n w] Let_def)
      then show ?thesis using Inl False
        by (intro exI [of _ 0]) (auto simp: stop_after_attempt_def)
    next
      case True
      from "1.IH" [OF refl Inl True]
      obtain k where k: "call_gemini_with_retry env (Suc n) ?w1
           = (api env (Suc n + k),
              ?w1\<lparr>trace := trace ?w1 @ map ApiCall [Suc n..<Suc (Suc n + k)]\<rparr>)"
        and earlier: "\<forall>j. Suc n \<le> j \<and> j < Suc n + k \<longrightarrow>
             (\<exists>e. api env j = Inl e \<and> retry_if_exception_type e
                  \<and> int j < retry_max_attempts env)"
        and final: "\<forall>e. api env (Suc n + k) = Inl e \<longrightarrow>
             \<not> retry_if_exception_type e \<or> retry_max_attempts env \<le> int (Suc n + k)"
        by blast
      have step: "call_gemini_with_retry env n w = call_gemini_with_retry env (Suc n) ?w1"
        using Inl True by (simp add: call_gemini_with_retry.simps [of env n w] Let_def)
      have upt: "[n..<Suc (n + Suc k)] = n # [Suc n..<Suc (Suc n + k)]"
        by (simp add: upt_conv_Cons)
      have a: "call_gemini_with_retry env n w
           = (api env (n + Suc k),
              w\<lparr>trace := trace w @ map ApiCall [n..<Suc (n + Suc k)]\<rparr>)"
        unfolding step k upt by simp
      have b: "\<forall>j. n \<le> j \<and> j < n + Suc k \<longrightarrow>
             (\<exists>e. api env j = Inl e \<and> retry_if_exception_type e
                  \<and> int j < retry_max_attempts env)"
      proof (intro allI impI)
        fix j assume j: "n \<le> j \<and> j < n + Suc k"
        show "\<exists>e. api env j = Inl e \<and> retry_if_exception_type e
                  \<and> int j < retry_max_attempts env"
        proof (cases "j = n")
          case jn: True
          then show ?thesis using Inl True by (auto simp: stop_after_attempt_def)
        next
          case False
          then show ?thesis using j earlier by simp
        qed
      qed
      have c: "\<forall>e. api env (n + Suc k) = Inl e \<longrightarrow>
             \<not> retry_if_exception_type e \<or> retry_max_attempts env \<le> int (n + Suc k)"
        using final by simp
      from a b c show ?thesis by blast
    qed
  qed
qed


lemma retry_if_exception_type_iff: "retry_if_exception_type e = is_Exception e"
  by (cases e) (simp_all add: retry_if_exception_type_def)

text \<open>
  Claim C3, as the code has it. The decorator retries every failure that is an
  instance of \<open>Exception\<close>: its tuple names \<open>ConnectionError\<close>, \<open>TimeoutError\<close> and
  \<open>Exception\<close> itself, so a permanent failure of the operation is retried like a
  transient one. The retried function is attempted \<open>k + 1\<close> times, and every attempt
  before the last failed with an \<open>Exception\<close>. When \<open>retry_max_attempts = m\<close> (at least
  1; 3 by default) and every attempt fails with an \<open>Exception\<close>, of whatever kind, there
  are exactly \<open>m\<close> attempts and the loop ends in a failure. Only a failure that is not an
  \<open>Exception\<close> (the cancellation of the task) ends the loop after one attempt. A
  rejection by the breaker is raised by \<open>parse_image\<close> before the retried function is
  entered: the world, and so the log of attempts, is unchanged.
\<close>

theorem retries_every_exception_to_exhaustion:
  "(\<exists>k. call_gemini_with_retry env 1 w
           = (api env (Suc k), w\<lparr>trace := trace w @ map ApiCall [1..<Suc (Suc k)]\<rparr>)
        \<and> (\<forall>j. 1 \<le> j \<and> j \<le> k \<longrightarrow> (\<exists>e. api env j = Inl e \<and> is_Exception e))
        \<and> (1 \<le> m \<and> retry_max_attempts env = int m
              \<and> (\<forall>j. \<exists>e. api env j = Inl e \<and> is_Exception e)
            \<longrightarrow> Suc k = m \<and> (\<exists>e. fst (call_gemini_with_retry env 1 w) = Inl e))
        \<and> ((\<exists>e. api env 1 = Inl e \<and> \<not> is_Exception e) \<longrightarrow> k = 0)
        \<and> (\<forall>e. api env (Suc k) = Inl e \<and> is_Exception e
               \<longrightarrow> retry_max_attempts env \<le> int (Suc k)))
   \<and> (\<forall>e. can_execute (now_check env) (breaker w) = Inl e
          \<longrightarrow> parse_image env p w = (Inl e, w))"
proof (intro conjI allI impI)
  from call_gemini_with_retry_char [of env 1 w]
  obtain k where run: "call_gemini_with_retry env 1 w
         = (api env (1 + k), w\<lparr>trace := trace w @ map ApiCall [1..<Suc (1 + k)]\<rparr>)"
    and earlier: "\<forall>j. 1 \<le> j \<and> j < 1 + k \<longrightarrow>
             (\<exists>e. api env j = Inl e \<and> is_Exception e
                  \<and> int j < retry_max_attempts env)"
    and final: "\<forall>e. api env (1 + k) = Inl e \<longrightarrow>
             \<not> is_Exception e \<or> retry_max_attempts env \<le> int (1 + k)"
    unfolding retry_if_exception_type_iff by blast
  have a: "call_gemini_with_retry env 1 w
           = (api env (Suc k), w\<lparr>trace := trace w @ map ApiCall [1..<Suc (Suc k)]\<rparr>)"
    using run by simp
  have b: "\<forall>j. 1 \<le> j \<and> j \<le> k \<longrightarrow> (\<exists>e. api env j = Inl e \<and> is_Exception e)"
    using earlier by auto
  have c: "1 \<le> m \<and> retry_max_attempts env = int m
              \<and> (\<forall>j. \<exists>e. api env j = Inl e \<and> is_Exception e)
            \<longrightarrow> Suc k = m \<and> (\<exists>e. fst (call_gemini_with_retry env 1 w) = Inl e)"
  proof
    assume h: "1 \<le> m \<and> retry_max_attempts env = int m
              \<and> (\<forall>j. \<exists>e. api env j = Inl e \<and> is_Exception e)"
    then obtain e where e: "api env (1 + k) = Inl e" "is_Exception e"
      by blast
    with final h have up: "m \<le> Suc k" by auto
    have "Suc k \<le> m"
    proof (cases k)
      case 0
      then show ?thesis using h by simp
    next
      case (Suc k')
      then have "int k < retry_max_attempts env"
        using earlier by (auto dest: spec [of _ k])
      then show ?thesis using h by simp
    qed
    with up have "Suc k = m" by simp
    moreover have "fst (call_gemini_with_retry env 1 w) = Inl e"
      using a e by simp
    ultimately show "Suc k = m \<and> (\<exists>e. fst (call_gemini_with_retry env 1 w) = Inl e)"
      by blast
  qed
  have d: "(\<exists>e. api env 1 = Inl e \<and> \<not> is_Exception e) \<longrightarrow> k = 0"
  proof
    assume "\<exists>e. api env 1 = Inl e \<and> \<not> is_Exception e"
    then obtain e where e: "api env 1 = Inl e" "\<not> is_Exception e" by blast
    show "k = 0"
    proof (rule ccontr)
      assume "k \<noteq> 0"
      then have "\<exists>e'. api env 1 = Inl e' \<and> is_Exception e'"
        using earlier by (auto dest: spec [of _ 1])
      with e show False by simp
    qed
  qed
  have f: "\<forall>e. api env (Suc k) = Inl e \<and> is_Exception e
               \<longrightarrow> retry_max_attempts env \<le> int (Suc k)"
    using final by auto
  from a b c d f show "\<exists>k. call_gemini_with_retry env 1 w
           = (api env (Suc k), w\<lparr>trace := trace w @ map ApiCall [1..<Suc (Suc k)]\<rparr>)
        \<and> (\<forall>j. 1 \<le> j \<and> j \<le> k \<longrightarrow> (\<exists>e. api env j = Inl e \<and> is_Exception e))
        \<and> (1 \<le> m \<and> retry_max_attempts env = int m
              \<and> (\<forall>j. \<exists>e. api env j = Inl e \<and> is_Exception e)
            \<longrightarrow> Suc k = m \<and> (\<exists>e. fst (call_gemini_with_retry env 1 w) = Inl e))
        \<and> ((\<exists>e. api env 1 = Inl e \<and> \<not> is_Exception e) \<longrightarrow> k = 0)
        \<and> (\<forall>e. api env (Suc k) = Inl e \<and> is_Exception e
               \<longrightarrow> retry_max_attempts env \<le> int (Suc k))"
    by blast
next
  fix e assume "can_execute (now_check env) (breaker w) = Inl e"
  then show "parse_image env p w = (Inl e, w)"
    by (simp add: parse_image_def)
qed

theorem retries_every_exception_to_exhaustion_witness:
  "call_gemini_with_retry
      \<lparr>validate_and_store_result = Inr (''/s/a.png'', ''a.png''), flush_ok = (\<lambda>k. True),
       api = (\<lambda>n. Inl ConnectionError), retry_max_attempts = 3, now_check = 10,
       now_fail = 11, request_id = ''r1''\<rparr> 1
      \<lparr>breaker = new_CircuitBreaker 5 60, files = [], session_note = None, db_row = None,
       flush_calls = 0, trace = []\<rparr>
    = (Inl ConnectionError,
       \<lparr>breaker = new_CircuitBreaker 5 60, files = [], session_note = None, db_row = None,
        flush_calls = 0, trace = [ApiCall 1, ApiCall 2, ApiCall 3]\<rparr>)
   \<and> call_gemini_with_retry
      \<lparr>validate_and_store_result = Inr (''/s/a.png'', ''a.png''), flush_ok = (\<lambda>k. True),
       api = (\<lambda>n. Inl CancelledError), retry_max_attempts = 3, now_check = 10,
       now_fail = 11, request_id = ''r1''\<rparr> 1
      \<lparr>breaker = new_CircuitBreaker 5 60, files = [], session_note = None, db_row = None,
       flush_calls = 0, trace = []\<rparr>
    = (Inl CancelledError,
       \<lparr>breaker = new_CircuitBreaker 5 60, files = [], session_note = None, db_row = None,
        flush_calls = 0, trace = [ApiCall 1]\<rparr>)
   \<and> parse_image
      \<lparr>validate_and_store_result = Inr (''/s/a.png'', ''a.png''), flush_ok = (\<lambda>k. True),
       api = (\<lambda>n. Inl ConnectionError), retry_max_attempts = 3, now_check = 10,
       now_fail = 11, request_id = ''r1''\<rparr> ''/s/a.png''
      \<lparr>breaker = \<lparr>failure_threshold = 5, recovery_timeout = 60, failure_count = 5,
                   state = OPEN, last_failure_time = Some 5\<rparr>,
       files = [], session_note = None, db_row = None, flush_calls = 0, trace = []\<rparr>
    = (Inl (CircuitBreakerOpenError 55),
       \<lparr>breaker = \<lparr>failure_threshold = 5, recovery_timeout = 60, failure_count = 5,
                    state = OPEN, last_failure_time = Some 5\<rparr>,
        files = [], session_note = None, db_row = None, flush_calls = 0, trace = []\<rparr>)"
proof -
  let ?w = "\<lparr>breaker = new_CircuitBreaker 5 60, files = [], session_note = None,
       db_row = None, flush_calls = 0, trace = []\<rparr>"
  let ?wo = "\<lparr>breaker = \<lparr>failure_threshold = 5, recovery_timeout = 60, failure_count = 5,
                   state = OPEN, last_failure_time = Some 5\<rparr>,
       files = [], session_note = None, db_row = None, flush_calls = 0, trace = []\<rparr>"
  let ?e1 = "\<lparr>validate_and_store_result = Inr (''/s/a.png'', ''a.png''),
       flush_ok = (\<lambda>k. True),
       api = (\<lambda>n. Inl ConnectionError), retry_max_attempts = 3, now_check = 10,
       now_fail = 11, request_id = ''r1''\<rparr>"
  let ?e2 = "\<lparr>validate_and_store_result = Inr (''/s/a.png'', ''a.png''),
       flush_ok = (\<lambda>k. True),
       api = (\<lambda>n. Inl CancelledError), retry_max_attempts = 3, now_check = 10,
       now_fail = 11, request_id = ''r1''\<rparr>"
  have upt3: "[1..<Suc 3] = [1, 2, 3]"
    by (simp add: upt_rec)
  from retries_every_exception_to_exhaustion [of ?e1 ?w 3 "''/s/a.png''"]
  obtain k where k: "call_gemini_with_retry ?e1 1 ?w
      = (api ?e1 (Suc k), ?w\<lparr>trace := trace ?w @ map ApiCall [1..<Suc (Suc k)]\<rparr>)"
    and "1 \<le> (3::nat) \<and> retry_max_attempts ?e1 = int 3
          \<and> (\<forall>j. \<exists>e. api ?e1 j = Inl e \<and> is_Exception e)
         \<longrightarrow> Suc k = 3 \<and> (\<exists>e. fst (call_gemini_with_retry ?e1 1 ?w) = Inl e)"
    by blast
  then have "Suc k = 3" by simp
  then have a: "call_gemini_with_retry ?e1 1 ?w
      = (Inl ConnectionError, ?w\<lparr>trace := [ApiCall 1, ApiCall 2, ApiCall 3]\<rparr>)"
    using k upt3 by simp
  from retries_every_exception_to_exhaustion [of ?e2 ?w 3 "''/s/a.png''"]
  obtain k2 where k2: "call_gemini_with_retry ?e2 1 ?w
      = (api ?e2 (Suc k2), ?w\<lparr>trace := trace ?w @ map ApiCall [1..<Suc (Suc k2)]\<rparr>)"
    and "(\<exists>e. api ?e2 1 = Inl e \<and> \<not> is_Exception e) \<longrightarrow> k2 = 0"
    by blast
  then have "k2 = 0" by simp
  then have b: "call_gemini_with_retry ?e2 1 ?w
      = (Inl CancelledError, ?w\<lparr>trace := [ApiCall 1]\<rparr>)"
    using k2 by simp
  have rej: "can_execute (now_check ?e1) (breaker ?wo) = Inl (CircuitBreakerOpenError 55)"
    by (simp add: can_execute_def elapsed_since_failure_def py_int_def)
  from retries_every_exception_to_exhaustion [of ?e1 ?wo 3 "''/s/a.png''"] rej
  have c: "parse_image ?e1 ''/s/a.png'' ?wo = (Inl (CircuitBreakerOpenError 55), ?wo)"
    by blast
  from a b c show ?thesis by simp
qed

text \<open>
  The claim's "retries only transient kinds; a non-retryable kind is attempted exactly
  once" fails for a permanent failure of the operation: an API error
  \<open>PermissionDenied\<close>, which is neither of the network kinds the decorator names
  (\<open>ConnectionError\<close>, \<open>TimeoutError\<close>), is attempted three times under
  \<open>retry_max_attempts = 3\<close>, because the tuple also holds \<open>Exception\<close>.
\<close>

theorem permanent_failure_is_retried_three_times:
  "call_gemini_with_retry
      \<lparr>validate_and_store_result = Inr (''/s/a.png'', ''a.png''), flush_ok = (\<lambda>k. True),
       api = (\<lambda>n. Inl (OtherException ''PermissionDenied'')), retry_max_attempts = 3,
       now_check = 10, now_fail = 11, request_id = ''r1''\<rparr> 1
      \<lparr>breaker = new_CircuitBreaker 5 60, files = [], session_note = None, db_row = None,
       flush_calls = 0, trace = []\<rparr>
    = (Inl (OtherException ''PermissionDenied''),
       \<lparr>breaker = new_CircuitBreaker 5 60, files = [], session_note = None, db_row = None,
        flush_calls = 0, trace = [ApiCall 1, ApiCall 2, ApiCall 3]\<rparr>)
   \<and> OtherException ''PermissionDenied'' \<noteq> ConnectionError
   \<and> OtherException ''PermissionDenied'' \<noteq> TimeoutError"
  by (simp add: call_gemini_with_retry.simps retry_if_exception_type_def
      stop_after_attempt_def)

text \<open>
  Claim C7. For a call the breaker admits, whose attempts fail only with exceptions of
  the SDK or the network (instances of \<open>Exception\<close>, never the breaker's own
  \<open>CircuitBreakerOpenError\<close>), the log of \<open>parse_image\<close> is the attempts \<open>1..k+1\<close>
  followed by exactly one breaker event: \<open>RecordSuccess\<close> when the last attempt returned
  (the breaker is \<open>record_success\<close> of the admitted one), \<open>RecordFailure\<close> when the
  attempts are exhausted (the breaker is \<open>record_failure\<close> of the admitted one, and an
  \<open>LLMServiceError\<close> is raised). Two failures and a success on the third attempt log
  one \<open>RecordSuccess\<close>.
\<close>

theorem one_breaker_event_per_protected_call:
  assumes "can_execute (now_check env) (breaker w) = Inr (ok, cb1)"
    and "\<forall>n e. api env n = Inl e \<longrightarrow> is_Exception e \<and> \<not> is_CircuitBreakerOpenError e"
  shows "\<exists>k ev. trace (snd (parse_image env p w))
                  = trace w @ map ApiCall [1..<Suc (Suc k)] @ [ev]
           \<and> (case fst (parse_image env p w) of
                 Inr s \<Rightarrow> ev = RecordSuccess \<and> api env (Suc k) = Inr s
                          \<and> breaker (snd (parse_image env p w)) = record_success cb1
               | Inl e \<Rightarrow> ev = RecordFailure \<and> is_LLMServiceError e
                          \<and> retry_max_attempts env \<le> int (Suc k)
                          \<and> breaker (snd (parse_image env p w))
                              = record_failure (now_fail env) cb1)"
proof -
  let ?w0 = "w\<lparr>breaker := cb1\<rparr>"
  from call_gemini_with_retry_char [of env 1 ?w0]
  obtain k where run: "call_gemini_with_retry env 1 ?w0
         = (api env (Suc k), ?w0\<lparr>trace := trace ?w0 @ map ApiCall [1..<Suc (Suc k)]\<rparr>)"
    and final: "\<forall>e. api env (1 + k) = Inl e \<longrightarrow>
             \<not> retry_if_exception_type e \<or> retry_max_attempts env \<le> int (1 + k)"
    by auto
  show ?thesis
  proof (cases "api env (Suc k)")
    case (Inr s)
    then have "parse_image env p w
        = (Inr s, breaker_record_success
                    (?w0\<lparr>trace := trace ?w0 @ map ApiCall [1..<Suc (Suc k)]\<rparr>))"
      using assms(1) run by (simp add: parse_image_def)
    then show ?thesis using Inr
      by (intro exI [of _ k] exI [of _ RecordSuccess])
         (simp add: breaker_record_success_def)
  next
    case (Inl e)
    then have exc: "is_Exception e" "\<not> is_CircuitBreakerOpenError e"
      using assms(2) by blast+
    have exhausted: "retry_max_attempts env \<le> int (Suc k)"
      using final Inl exc by (simp add: retry_if_exception_type_iff)
    have "\<exists>err. is_LLMServiceError err \<and> parse_image env p w
        = (Inl err, breaker_record_failure env
                    (?w0\<lparr>trace := trace ?w0 @ map ApiCall [1..<Suc (Suc k)]\<rparr>))"
      using assms(1) run Inl exc
      by (simp add: parse_image_def new_LLMServiceError_def)
    then obtain err where "is_LLMServiceError err" "parse_image env p w
        = (Inl err, breaker_record_failure env
                    (?w0\<lparr>trace := trace ?w0 @ map ApiCall [1..<Suc (Suc k)]\<rparr>))"
      by blast
    then show ?thesis using exhausted
      by (intro exI [of _ k] exI [of _ RecordFailure])
         (simp add: breaker_record_failure_def)
  qed
qed

theorem one_breaker_event_per_protected_call_witness:
  "trace (snd (parse_image
      \<lparr>validate_and_store_result = Inr (''/s/a.png'', ''a.png''), flush_ok = (\<lambda>k. True),
       api = (\<lambda>n. if n < 3 then Inl TimeoutError else Inr ''hello''),
       retry_max_attempts = 3, now_check = 10, now_fail = 11, request_id = ''r1''\<rparr>
      ''/s/a.png''
      \<lparr>breaker = new_CircuitBreaker 5 60, files = [], session_note = None, db_row = None,
       flush_calls = 0, trace = []\<rparr>))
    = [ApiCall 1, ApiCall 2, ApiCall 3, RecordSuccess]"
proof -
  let ?w = "\<lparr>breaker = new_CircuitBreaker 5 60, files = [], session_note = None,
       db_row = None, flush_calls = 0, trace = []\<rparr>"
  let ?e = "\<lparr>validate_and_store_result = Inr (''/s/a.png'', ''a.png''),
       flush_ok = (\<lambda>k. True),
       api = (\<lambda>n. if n < 3 then Inl TimeoutError else Inr ''hello''),
       retry_max_attempts = 3, now_check = 10, now_fail = 11, request_id = ''r1''\<rparr>"
  have adm: "can_execute (now_check ?e) (breaker ?w) = Inr (True, new_CircuitBreaker 5 60)"
    by (simp add: can_execute_def new_CircuitBreaker_def)
  have kinds: "\<forall>n e. api ?e n = Inl e \<longrightarrow> is_Exception e \<and> \<not> is_CircuitBreakerOpenError e"
    by auto
  have res: "fst (parse_image ?e ''/s/a.png'' ?w) = Inr ''hello''"
    by (simp add: parse_image_def can_execute_def new_CircuitBreaker_def
        call_gemini_with_retry.simps retry_if_exception_type_def stop_after_attempt_def)
  from one_breaker_event_per_protected_call [OF adm kinds, of "''/s/a.png''"]
  obtain k ev where tr: "trace (snd (parse_image ?e ''/s/a.png'' ?w))
        = trace ?w @ map ApiCall [1..<Suc (Suc k)] @ [ev]"
    and "ev = RecordSuccess \<and> api ?e (Suc k) = Inr ''hello''"
    unfolding res by auto
  then have ev: "ev = RecordSuccess" and "\<not> Suc k < 3"
    by (auto split: if_splits)
  have "length (trace (snd (parse_image ?e ''/s/a.png'' ?w))) = 4"
    by (simp add: parse_image_def can_execute_def new_CircuitBreaker_def
        call_gemini_with_retry.simps retry_if_exception_type_def stop_after_attempt_def
        breaker_record_success_def)
  moreover have "length (trace (snd (parse_image ?e ''/s/a.png'' ?w))) = Suc (Suc k)"
    unfolding tr by (simp del: upt_Suc)
  ultimately have k2: "k = 2" by simp
  have "[1..<Suc (Suc 2)] = [1, 2, 3]" by (simp add: upt_rec)
  then show ?thesis unfolding tr k2 ev by simp
qed

section \<open>Properties of the orchestrator\<close>

lemma db_flush_trace:
  "\<exists>ev. trace (snd (db_flush env w)) = trace w @ [ev] \<and> (\<forall>n. ev \<noteq> ApiCall n)
        \<and> (\<forall>u. fst (db_flush env w) = Inr u \<longrightarrow> ev = Flushed (session_note w))"
  by (simp add: db_flush_def Let_def)

lemma parse_note_except_trace:
  "\<exists>ex. trace (snd (parse_note_except env e a nv w)) = trace w @ ex
        \<and> (\<forall>n. ApiCall n \<notin> set ex)"
proof (cases "is_LLMServiceError e")
  case True
  show ?thesis
  proof (cases nv)
    case None
    then show ?thesis using True by (simp add: parse_note_except_def)
  next
    case (Some n0)
    then show ?thesis using True
      by (simp add: parse_note_except_def db_flush_def Let_def)
  qed
next
  case False
  then show ?thesis
    by (cases a) (simp_all add: parse_note_except_def cleanup_file_def Let_def)
qed

lemma parse_image_trace:
  "\<exists>rest. trace (snd (parse_image env p w)) = trace w @ rest
          \<and> (rest = [] \<or> (\<exists>r. rest = ApiCall 1 # r))"
proof (cases "can_execute (now_check env) (breaker w)")
  case (Inl e)
  then show ?thesis by (simp add: parse_image_def)
next
  case (Inr okcb)
  obtain ok cb1 where okcb: "okcb = (ok, cb1)" by (cases okcb)
  let ?w0 = "w\<lparr>breaker := cb1\<rparr>"
  from call_gemini_with_retry_char [of env 1 ?w0]
  obtain k where run: "call_gemini_with_retry env 1 ?w0
         = (api env (Suc k), ?w0\<lparr>trace := trace ?w0 @ map ApiCall [1..<Suc (Suc k)]\<rparr>)"
    by auto
  have upt: "[1..<Suc (Suc k)] = 1 # [Suc 1..<Suc (Suc k)]"
    by (rule upt_conv_Cons) simp
  show ?thesis
    using Inr okcb run unfolding upt
    by (cases "api env (Suc k)")
       (simp_all add: parse_image_def breaker_record_success_def breaker_record_failure_def)
qed

lemma parse_image_frame:
  "files (snd (parse_image env p w)) = files w
   \<and> session_note (snd (parse_image env p w)) = session_note w
   \<and> db_row (snd (parse_image env p w)) = db_row w
   \<and> flush_calls (snd (parse_image env p w)) = flush_calls w"
proof (cases "can_execute (now_check env) (breaker w)")
  case (Inl e)
  then show ?thesis by (simp add: parse_image_def)
next
  case (Inr okcb)
  obtain ok cb1 where okcb: "okcb = (ok, cb1)" by (cases okcb)
  let ?w0 = "w\<lparr>breaker := cb1\<rparr>"
  from call_gemini_with_retry_char [of env 1 ?w0]
  obtain k where run: "call_gemini_with_retry env 1 ?w0
         = (api env (Suc k), ?w0\<lparr>trace := trace ?w0 @ map ApiCall [1..<Suc (Suc k)]\<rparr>)"
    by auto
  show ?thesis
    using Inr okcb run
    by (cases "api env (Suc k)")
       (simp_all add: parse_image_def breaker_record_success_def breaker_record_failure_def)
qed

lemma parse_image_raises_llm_error:
  assumes "can_execute (now_check env) (breaker w) = Inr (ok, cb1)"
    and "\<forall>n e. api env n = Inl e \<longrightarrow> is_Exception e \<and> \<not> is_CircuitBreakerOpenError e"
    and "fst (parse_image env p w) = Inl err"
  shows "is_LLMServiceError err \<and> message_of err \<noteq> []"
proof -
  let ?w0 = "w\<lparr>breaker := cb1\<rparr>"
  from call_gemini_with_retry_char [of env 1 ?w0]
  obtain k where run: "call_gemini_with_retry env 1 ?w0
         = (api env (Suc k), ?w0\<lparr>trace := trace ?w0 @ map ApiCall [1..<Suc (Suc k)]\<rparr>)"
    by auto
  show ?thesis
  proof (cases "api env (Suc k)")
    case (Inr s)
    then show ?thesis using assms(1,3) run by (simp add: parse_image_def)
  next
    case (Inl e)
    then have "is_Exception e" "\<not> is_CircuitBreakerOpenError e"
      using assms(2) by blast+
    then show ?thesis using assms(1,3) run Inl
      by (auto simp: parse_image_def new_LLMServiceError_def exhausted_message_def
          unexpected_message_def split: if_splits)
  qed
qed

lemma parse_image_all_attempts_fail:
  assumes "can_execute (now_check env) (breaker w) = Inr (ok, cb1)"
    and "\<forall>n. \<exists>e. api env n = Inl e \<and> is_Exception e \<and> \<not> is_CircuitBreakerOpenError e"
  shows "\<exists>err. fst (parse_image env p w) = Inl err \<and> is_LLMServiceError err
               \<and> message_of err \<noteq> []"
proof -
  let ?w0 = "w\<lparr>breaker := cb1\<rparr>"
  from call_gemini_with_retry_char [of env 1 ?w0]
  obtain k where run: "call_gemini_with_retry env 1 ?w0
         = (api env (Suc k), ?w0\<lparr>trace := trace ?w0 @ map ApiCall [1..<Suc (Suc k)]\<rparr>)"
    by auto
  obtain e where e: "api env (Suc k) = Inl e" "is_Exception e"
    "\<not> is_CircuitBreakerOpenError e"
    using assms(2) by blast
  then have "\<exists>err. fst (parse_image env p w) = Inl err"
    using assms(1) run by (simp add: parse_image_def)
  then obtain err where err: "fst (parse_image env p w) = Inl err" ..
  have "\<forall>n e. api env n = Inl e \<longrightarrow> is_Exception e \<and> \<not> is_CircuitBreakerOpenError e"
    using assms(2) by (metis Inl_inject)
  from parse_image_raises_llm_error [OF assms(1) this err] err
  show ?thesis by blast
qed

text \<open>
  The path of \<open>parse_note\<close> that records a failure: when the upload is valid, the first
  flush succeeds, the breaker admits the call and every attempt fails, \<open>parse_note\<close>
  raises an \<open>LLMServiceError\<close> with a non-empty message and the note is failed, with
  that message and retry count 1; the row follows when the second flush succeeds.
\<close>

lemma retry_exhausted_marks_note_failed:
  assumes "validate_and_store_result env = Inr (abs_path, rel)"
    and "flush_ok env (flush_calls w)"
    and "can_execute (now_check env) (breaker w) = Inr (ok, cb1)"
    and "\<forall>n. \<exists>e. api env n = Inl e \<and> is_Exception e \<and> \<not> is_CircuitBreakerOpenError e"
  shows "\<exists>err. fst (parse_note env w) = Inl err \<and> is_LLMServiceError err
           \<and> message_of err \<noteq> []
           \<and> session_note (snd (parse_note env w))
               = Some \<lparr>image_path = rel, parsed_text = [], status = ''failed'',
                       error_message = Some (message_of err), retry_count = 1\<rparr>
           \<and> (flush_ok env (Suc (flush_calls w)) \<longrightarrow>
                 db_row (snd (parse_note env w)) = session_note (snd (parse_note env w)))"
proof -
  let ?n = "\<lparr>image_path = rel, parsed_text = [], status = ''processing'',
             error_message = None, retry_count = 0\<rparr>"
  let ?w1 = "w\<lparr>files := abs_path # files w, trace := trace w @ [FileStored abs_path]\<rparr>"
  obtain w2 where f2: "db_flush env (db_add ?n ?w1) = (Inr (), w2)"
    and w2: "breaker w2 = breaker w" "session_note w2 = Some ?n"
      "flush_calls w2 = Suc (flush_calls w)"
    using assms(2) by (simp add: db_flush_def db_add_def Let_def)
  have adm: "can_execute (now_check env) (breaker w2) = Inr (ok, cb1)"
    using assms(3) w2(1) by simp
  obtain r3 w3 where p3: "parse_image env abs_path w2 = (r3, w3)"
    by (cases "parse_image env abs_path w2")
  from parse_image_all_attempts_fail [OF adm assms(4), of abs_path] p3
  obtain err where err: "r3 = Inl err" "is_LLMServiceError err" "message_of err \<noteq> []"
    by auto
  have w3: "session_note w3 = Some ?n" "flush_calls w3 = Suc (flush_calls w)"
    using parse_image_frame [of env abs_path w2] p3 w2 by simp_all
  let ?n1 = "\<lparr>image_path = rel, parsed_text = [], status = ''failed'',
              error_message = Some (message_of err), retry_count = 1\<rparr>"
  have pn: "parse_note env w = (Inl err, snd (db_flush env (w3\<lparr>session_note := Some ?n1\<rparr>)))"
    using assms(1) f2 p3 err
    by (simp add: parse_note_def validate_and_store_def parse_note_except_def Let_def)
  have "session_note (snd (db_flush env (w3\<lparr>session_note := Some ?n1\<rparr>))) = Some ?n1"
    by (simp add: db_flush_def Let_def)
  moreover have "flush_ok env (Suc (flush_calls w)) \<longrightarrow>
      db_row (snd (db_flush env (w3\<lparr>session_note := Some ?n1\<rparr>))) = Some ?n1"
    using w3(2) by (simp add: db_flush_def Let_def)
  ultimately show ?thesis using pn err by simp
qed

text \<open>
  Claim C6. Whenever a run of \<open>parse_note\<close> logs an attempt of the external call, the
  events it logged start with the file stored (validation succeeded), the note added,
  and a successful flush of that note with status processing, and only then the first
  attempt: the record is created and flushed before the external call begins.
\<close>

theorem note_flushed_processing_before_api_call:
  assumes "trace (snd (parse_note env w)) = trace w @ new"
    and "ApiCall n \<in> set new"
  shows "\<exists>abs_path nt rest.
           new = FileStored abs_path # NoteAdded # Flushed (Some nt) # ApiCall 1 # rest
           \<and> status nt = ''processing''
           \<and> validate_and_store_result env = Inr (abs_path, image_path nt)"
proof (cases "validate_and_store_result env")
  case (Inl e)
  obtain ex where "trace (snd (parse_note_except env e None None w)) = trace w @ ex"
    and "\<forall>n. ApiCall n \<notin> set ex"
    using parse_note_except_trace by blast
  then have False
    using assms Inl by (simp add: parse_note_def validate_and_store_def)
  then show ?thesis ..
next
  case (Inr paths)
  obtain abs_path rel where paths: "paths = (abs_path, rel)" by (cases paths)
  let ?n = "\<lparr>image_path = rel, parsed_text = [], status = ''processing'',
             error_message = None, retry_count = 0\<rparr>"
  let ?w1 = "w\<lparr>files := abs_path # files w, trace := trace w @ [FileStored abs_path]\<rparr>"
  let ?w1a = "db_add ?n ?w1"
  have tr1a: "trace ?w1a = trace w @ [FileStored abs_path, NoteAdded]"
    and sn1a: "session_note ?w1a = Some ?n"
    by (simp_all add: db_add_def)
  obtain r2 w2 where f2: "db_flush env ?w1a = (r2, w2)" by (cases "db_flush env ?w1a")
  obtain ev2 where ev2: "trace w2 = trace ?w1a @ [ev2]" "\<forall>n. ev2 \<noteq> ApiCall n"
    "\<forall>u. r2 = Inr u \<longrightarrow> ev2 = Flushed (session_note ?w1a)"
    using db_flush_trace [of env ?w1a] f2 by auto
  have pn: "parse_note env w =
      (case (r2, w2) of
         (Inl e, w2) \<Rightarrow> parse_note_except env e (Some abs_path) (Some ?n) w2
       | (Inr u, w2) \<Rightarrow>
           (case parse_image env abs_path w2 of
              (Inl e, w3) \<Rightarrow> parse_note_except env e (Some abs_path) (Some ?n) w3
            | (Inr txt, w3) \<Rightarrow>
                (let n1 = ?n\<lparr>parsed_text := txt, status := ''completed''\<rparr> in
                 case db_flush env (w3\<lparr>session_note := Some n1\<rparr>) of
                   (Inl e, w4) \<Rightarrow>
                     parse_note_except env e (Some abs_path) (Some n1) w4
                 | (Inr u, w4) \<Rightarrow>
                     (Inr \<lparr>message = ''Note parsed successfully'',
                           resp_parsed_text = txt,
                           resp_note =
                             \<lparr>image_url = ''/api/files/'' @ rel,
                              resp_text = parsed_text n1,
                              resp_status = status n1,
                              resp_error = error_message n1\<rparr>\<rparr>, w4))))"
    using Inr paths f2 by (simp add: parse_note_def validate_and_store_def Let_def)
  show ?thesis
  proof (cases r2)
    case (Inl e)
    obtain ex where "trace (snd (parse_note_except env e (Some abs_path) (Some ?n) w2))
        = trace w2 @ ex" and "\<forall>n. ApiCall n \<notin> set ex"
      using parse_note_except_trace by blast
    then have False
      using assms pn Inl ev2 tr1a by auto
    then show ?thesis ..
  next
    case (Inr u)
    then have ev2': "ev2 = Flushed (Some ?n)" using ev2(3) sn1a by simp
    have tr2: "trace w2 = trace w @ [FileStored abs_path, NoteAdded, Flushed (Some ?n)]"
      using ev2(1) ev2' tr1a by simp
    obtain r3 w3 where p3: "parse_image env abs_path w2 = (r3, w3)"
      by (cases "parse_image env abs_path w2")
    obtain rest3 where rest3: "trace w3 = trace w2 @ rest3"
      "rest3 = [] \<or> (\<exists>r. rest3 = ApiCall 1 # r)"
      using parse_image_trace [of env abs_path w2] p3 by auto
    have "\<exists>later. trace (snd (parse_note env w)) = trace w3 @ later
        \<and> (\<forall>n. ApiCall n \<notin> set later)"
    proof (cases r3)
      case (Inl e)
      show ?thesis
        using pn Inr p3 Inl parse_note_except_trace [of env e "Some abs_path" "Some ?n" w3]
        by simp
    next
      case r3ok: (Inr parsed)
      let ?n1 = "?n\<lparr>parsed_text := parsed, status := ''completed''\<rparr>"
      let ?w3a = "w3\<lparr>session_note := Some ?n1\<rparr>"
      obtain r4 w4 where f4: "db_flush env ?w3a = (r4, w4)" by (cases "db_flush env ?w3a")
      obtain ev4 where ev4: "trace w4 = trace ?w3a @ [ev4]" "\<forall>n. ev4 \<noteq> ApiCall n"
        using db_flush_trace [of env ?w3a] f4 by auto
      show ?thesis
      proof (cases r4)
        case (Inl e)
        obtain ex where "trace (snd (parse_note_except env e (Some abs_path) (Some ?n1) w4))
            = trace w4 @ ex" and "\<forall>n. ApiCall n \<notin> set ex"
          using parse_note_except_trace by blast
        then show ?thesis
          using pn Inr p3 r3ok f4 Inl ev4 by (auto simp: Let_def)
      next
        case (Inr u4)
        then show ?thesis
          using pn \<open>r2 = Inr u\<close> p3 r3ok f4 ev4 by (auto simp: Let_def)
      qed
    qed
    then obtain later where later: "trace (snd (parse_note env w)) = trace w3 @ later"
      "\<forall>n. ApiCall n \<notin> set later"
      by blast
    have new: "new = [FileStored abs_path, NoteAdded, Flushed (Some ?n)] @ rest3 @ later"
      using assms(1) later(1) rest3(1) tr2 by simp
    from rest3(2) show ?thesis
    proof
      assume "rest3 = []"
      then have False using new assms(2) later(2) by auto
      then show ?thesis ..
    next
      assume "\<exists>r. rest3 = ApiCall 1 # r"
      then obtain r where "rest3 = ApiCall 1 # r" by blast
      then have "new = FileStored abs_path # NoteAdded # Flushed (Some ?n) # ApiCall 1
          # (r @ later)"
        using new by simp
      moreover have "status ?n = ''processing''" by simp
      moreover have "validate_and_store_result env = Inr (abs_path, image_path ?n)"
        using \<open>validate_and_store_result env = Inr paths\<close> paths by simp
      ultimately show ?thesis by blast
    qed
  qed
qed

theorem note_flushed_processing_before_api_call_witness:
  "trace (snd (parse_note
      \<lparr>validate_and_store_result = Inr (''/s/a.png'', ''a.png''), flush_ok = (\<lambda>k. True),
       api = (\<lambda>n. Inr ''hello''),
       retry_max_attempts = 3, now_check = 10, now_fail = 11, request_id = ''r1''\<rparr>
      \<lparr>breaker = new_CircuitBreaker 5 60, files = [], session_note = None, db_row = None,
       flush_calls = 0, trace = []\<rparr>))
    = [] @ [FileStored ''/s/a.png'', NoteAdded,
       Flushed (Some \<lparr>image_path = ''a.png'', parsed_text = [], status = ''processing'',
                       error_message = None, retry_count = 0\<rparr>),
       ApiCall 1, RecordSuccess,
       Flushed (Some \<lparr>image_path = ''a.png'', parsed_text = ''hello'',
                       status = ''completed'', error_message = None, retry_count = 0\<rparr>)]
   \<and> (\<exists>abs_path nt rest.
         [FileStored ''/s/a.png'', NoteAdded,
          Flushed (Some \<lparr>image_path = ''a.png'', parsed_text = [], status = ''processing'',
                          error_message = None, retry_count = 0\<rparr>),
          ApiCall 1, RecordSuccess,
          Flushed (Some \<lparr>image_path = ''a.png'', parsed_text = ''hello'',
                          status = ''completed'', error_message = None, retry_count = 0\<rparr>)]
           = FileStored abs_path # NoteAdded # Flushed (Some nt) # ApiCall 1 # rest
         \<and> status nt = ''processing'')"
proof -
  let ?w = "\<lparr>breaker = new_CircuitBreaker 5 60, files = [], session_note = None,
       db_row = None, flush_calls = 0, trace = []\<rparr>"
  let ?e = "\<lparr>validate_and_store_result = Inr (''/s/a.png'', ''a.png''),
       flush_ok = (\<lambda>k. True), api = (\<lambda>n. Inr ''hello''),
       retry_max_attempts = 3, now_check = 10, now_fail = 11, request_id = ''r1''\<rparr>"
  let ?new = "[FileStored ''/s/a.png'', NoteAdded,
       Flushed (Some \<lparr>image_path = ''a.png'', parsed_text = [], status = ''processing'',
                       error_message = None, retry_count = 0\<rparr>),
       ApiCall 1, RecordSuccess,
       Flushed (Some \<lparr>image_path = ''a.png'', parsed_text = ''hello'',
                       status = ''completed'', error_message = None, retry_count = 0\<rparr>)]"
  have tr: "trace (snd (parse_note ?e ?w)) = trace ?w @ ?new"
    by (simp add: note_defs parse_image_def can_execute_def new_CircuitBreaker_def
        call_gemini_with_retry.simps breaker_record_success_def record_success_def Let_def)
  have mem: "ApiCall 1 \<in> set ?new" by simp
  from note_flushed_processing_before_api_call [OF tr mem] tr
  show ?thesis by auto
qed

section \<open>Properties of the rate limiter\<close>

lemma timestamps_of_update:
  "timestamps_of (AList.update k v reqs) k' = (if k' = k then v else timestamps_of reqs k')"
  by (simp add: timestamps_of_def update_conv')

lemma timestamps_of_cleanup:
  assumes "\<not> inactive ws (timestamps_of reqs k)"
  shows "timestamps_of (cleanup_inactive_ips ws reqs) k = timestamps_of reqs k"
proof (cases "map_of reqs k")
  case None
  then show ?thesis using assms by (simp add: timestamps_of_def inactive_def)
next
  case (Some tss)
  then have "\<not> inactive ws tss" using assms by (simp add: timestamps_of_def)
  with Some have "map_of (filter (\<lambda>(ip, tss). \<not> inactive ws tss) reqs) k = Some tss"
    by (rule map_of_filter_in)
  then show ?thesis using Some by (simp add: timestamps_of_def cleanup_inactive_ips_def)
qed

lemma appended_now_active:
  assumes "0 \<le> w"
  shows "\<not> inactive (now - real_of_int w) (pruned @ [now])"
proof -
  have "now \<le> Max (set (pruned @ [now]))" by (intro Max_ge) simp_all
  then show ?thesis using assms by (simp add: inactive_def)
qed

lemma dispatch_admit:
  assumes "url_path request \<notin> set EXCLUDED_PATHS" and "0 \<le> w"
    and "int (length (filter (\<lambda>ts. now - real_of_int w < ts)
                        (timestamps_of reqs (client_ip_of request)))) < n"
  shows "fst (dispatch n w request now reqs) = Inr CallNext
       \<and> timestamps_of (snd (dispatch n w request now reqs)) (client_ip_of request)
           = filter (\<lambda>ts. now - real_of_int w < ts)
               (timestamps_of reqs (client_ip_of request)) @ [now]"
  using assms
  by (simp add: dispatch_def Let_def timestamps_of_update timestamps_of_cleanup
      appended_now_active)

lemma dispatch_reject:
  assumes "url_path request \<notin> set EXCLUDED_PATHS"
    and "filter (\<lambda>ts. now - real_of_int w < ts)
           (timestamps_of reqs (client_ip_of request)) = oldest # later"
    and "n \<le> int (length (oldest # later))"
  shows "dispatch n w request now reqs
       = (Inr (TooManyRequests (\<lfloor>oldest + real_of_int w - now\<rfloor> + 1)),
          AList.update (client_ip_of request) (oldest # later) reqs)
       \<and> 1 \<le> \<lfloor>oldest + real_of_int w - now\<rfloor> + 1"
proof -
  have "oldest \<in> set (filter (\<lambda>ts. now - real_of_int w < ts)
           (timestamps_of reqs (client_ip_of request)))"
    unfolding assms(2) by simp
  then have pos: "0 < oldest + real_of_int w - now" by simp
  then have "py_int (oldest + real_of_int w - now) = \<lfloor>oldest + real_of_int w - now\<rfloor>"
    by (simp add: py_int_def)
  moreover have "0 \<le> \<lfloor>oldest + real_of_int w - now\<rfloor>" using pos by simp
  ultimately show ?thesis using assms
    by (simp add: dispatch_def Let_def)
qed

lemma dispatch_all_append:
  "dispatch_all n w request (xs @ ys) reqs
     = (case dispatch_all n w request xs reqs of
          (rs, reqs1) \<Rightarrow>
            (case dispatch_all n w request ys reqs1 of
               (rs2, reqs2) \<Rightarrow> (rs @ rs2, reqs2)))"
  by (induction xs arbitrary: reqs) (simp_all split: prod.splits)

lemma dispatch_all_admits:
  assumes "url_path request \<notin> set EXCLUDED_PATHS" and "0 \<le> w"
    and "\<forall>t\<in>set ts \<union> F. filter (\<lambda>x. t - real_of_int w < x)
                           (timestamps_of reqs (client_ip_of request)) = pre"
    and "\<forall>t\<in>set ts \<union> F. \<forall>u\<in>set ts. t - real_of_int w < u"
    and "int (length pre) + int (length ts) \<le> n"
  shows "fst (dispatch_all n w request ts reqs) = replicate (length ts) (Inr CallNext)
       \<and> (\<forall>t\<in>F. filter (\<lambda>x. t - real_of_int w < x)
                    (timestamps_of (snd (dispatch_all n w request ts reqs))
                       (client_ip_of request)) = pre @ ts)"
  using assms(3-5)
proof (induction ts arbitrary: reqs pre)
  case Nil
  then show ?case by simp
next
  case (Cons t ts)
  let ?ip = "client_ip_of request"
  have pruned: "filter (\<lambda>x. t - real_of_int w < x) (timestamps_of reqs ?ip) = pre"
    using Cons.prems(1) by simp
  have "int (length pre) < n" using Cons.prems(3) by simp
  with pruned have step: "fst (dispatch n w request t reqs) = Inr CallNext"
    "timestamps_of (snd (dispatch n w request t reqs)) ?ip = pre @ [t]"
    using dispatch_admit [OF assms(1,2), of t reqs n] by simp_all
  let ?reqs1 = "snd (dispatch n w request t reqs)"
  have inv: "\<forall>s\<in>set ts \<union> F. filter (\<lambda>x. s - real_of_int w < x)
                           (timestamps_of ?reqs1 ?ip) = pre @ [t]"
  proof
    fix s assume s: "s \<in> set ts \<union> F"
    then have eq: "filter (\<lambda>x. s - real_of_int w < x) (timestamps_of reqs ?ip) = pre"
      using Cons.prems(1) by auto
    have "filter (\<lambda>x. s - real_of_int w < x)
            (filter (\<lambda>x. s - real_of_int w < x) (timestamps_of reqs ?ip))
          = filter (\<lambda>x. s - real_of_int w < x) (timestamps_of reqs ?ip)"
      by simp
    then have "filter (\<lambda>x. s - real_of_int w < x) pre = pre"
      unfolding eq .
    moreover have "s - real_of_int w < t" using s Cons.prems(2) by auto
    ultimately show "filter (\<lambda>x. s - real_of_int w < x) (timestamps_of ?reqs1 ?ip) = pre @ [t]"
      using step(2) by simp
  qed
  have close: "\<forall>s\<in>set ts \<union> F. \<forall>u\<in>set ts. s - real_of_int w < u"
    using Cons.prems(2) by auto
  have len: "int (length (pre @ [t])) + int (length ts) \<le> n"
    using Cons.prems(3) by simp
  from Cons.IH [OF inv close len]
  have ih: "fst (dispatch_all n w request ts ?reqs1) = replicate (length ts) (Inr CallNext)"
    "\<forall>s\<in>F. filter (\<lambda>x. s - real_of_int w < x)
                    (timestamps_of (snd (dispatch_all n w request ts ?reqs1)) ?ip)
             = (pre @ [t]) @ ts"
    by simp_all
  show ?case using step(1) ih
    by (simp add: split_beta)
qed

lemma dispatch_prunes:
  assumes "url_path request \<notin> set EXCLUDED_PATHS" and "0 < w"
  shows "\<forall>x\<in>set (timestamps_of (snd (dispatch n w request now reqs))
                    (client_ip_of request)). now - real_of_int w < x"
proof -
  let ?ip = "client_ip_of request"
  let ?pruned = "filter (\<lambda>ts. now - real_of_int w < ts) (timestamps_of reqs ?ip)"
  show ?thesis
  proof (cases "int (length ?pruned) < n")
    case True
    have "0 \<le> w" using assms(2) by simp
    from dispatch_admit [OF assms(1) this True]
    have "timestamps_of (snd (dispatch n w request now reqs)) ?ip = ?pruned @ [now]"
      by simp
    then show ?thesis using assms(2) by auto
  next
    case False
    then have "timestamps_of (snd (dispatch n w request now reqs)) ?ip = ?pruned"
      using assms(1)
      by (cases ?pruned) (simp_all add: dispatch_def Let_def timestamps_of_update)
    then show ?thesis by auto
  qed
qed

text \<open>
  Claim C8, as the code has it. On a path that is rate limited, with window \<open>w > 0\<close>:
  after every \<open>dispatch\<close> at time \<open>now\<close>, all timestamps kept for the client are later
  than \<open>now - w\<close>. Let \<open>ts\<close> be the times of \<open>N \<ge> 1\<close> requests of one client and \<open>t'\<close>
  the time of the next one, all less than \<open>w\<close> apart, the client having no stored
  timestamp inside the window of any of them, and let the limit be \<open>N\<close>. Then the
  \<open>N\<close> requests are admitted, their times are appended, and the request at \<open>t'\<close> is
  rejected with \<open>retry_after = floor(oldest + w - t') + 1\<close>, \<open>oldest\<close> being the first
  of the kept timestamps; this value is at least 1. It is the value rounded up only
  when \<open>oldest + w - t'\<close> is not a whole number, and one more when it is.
\<close>

theorem sliding_window_admits_limit_then_rejects:
  assumes "url_path request \<notin> set EXCLUDED_PATHS" and "0 < w" and "ts \<noteq> []"
    and "\<forall>t\<in>set (ts @ [t']). filter (\<lambda>x. t - real_of_int w < x)
                              (timestamps_of reqs (client_ip_of request)) = []"
    and "\<forall>t\<in>set (ts @ [t']). \<forall>u\<in>set ts. t - real_of_int w < u"
  shows "(\<forall>x\<in>set (timestamps_of (snd (dispatch n w request now reqs0))
                     (client_ip_of request)). now - real_of_int w < x)
       \<and> fst (dispatch_all (int (length ts)) w request (ts @ [t']) reqs)
           = replicate (length ts) (Inr CallNext)
             @ [Inr (TooManyRequests (\<lfloor>hd ts + real_of_int w - t'\<rfloor> + 1))]
       \<and> 1 \<le> \<lfloor>hd ts + real_of_int w - t'\<rfloor> + 1
       \<and> timestamps_of (snd (dispatch_all (int (length ts)) w request (ts @ [t']) reqs))
             (client_ip_of request) = ts"
proof -
  let ?ip = "client_ip_of request"
  let ?n = "int (length ts)"
  have w0: "0 \<le> w" using assms(2) by simp
  have fresh: "\<forall>t\<in>set ts \<union> {t'}. filter (\<lambda>x. t - real_of_int w < x)
                              (timestamps_of reqs ?ip) = []"
    using assms(4) by simp
  have close: "\<forall>t\<in>set ts \<union> {t'}. \<forall>u\<in>set ts. t - real_of_int w < u"
    using assms(5) by simp
  have len: "int (length ([]::real list)) + int (length ts) \<le> ?n" by simp
  from dispatch_all_admits [OF assms(1) w0 fresh close len]
  have run: "fst (dispatch_all ?n w request ts reqs) = replicate (length ts) (Inr CallNext)"
    and after: "filter (\<lambda>x. t' - real_of_int w < x)
                  (timestamps_of (snd (dispatch_all ?n w request ts reqs)) ?ip) = ts"
    by simp_all
  let ?reqs1 = "snd (dispatch_all ?n w request ts reqs)"
  obtain oldest later where ts: "ts = oldest # later" using assms(3) by (cases ts) auto
  have pruned: "filter (\<lambda>x. t' - real_of_int w < x) (timestamps_of ?reqs1 ?ip)
      = oldest # later"
    using after ts by simp
  have full: "?n \<le> int (length (oldest # later))" using ts by simp
  from dispatch_reject [OF assms(1) pruned full]
  have rej: "fst (dispatch ?n w request t' ?reqs1)
      = Inr (TooManyRequests (\<lfloor>oldest + real_of_int w - t'\<rfloor> + 1))"
    and ge1: "1 \<le> \<lfloor>oldest + real_of_int w - t'\<rfloor> + 1"
    by simp_all
  from dispatch_reject [OF assms(1) pruned full]
  have kept: "timestamps_of (snd (dispatch ?n w request t' ?reqs1)) ?ip = ts"
    using ts by (simp add: timestamps_of_update)
  have "snd (dispatch_all ?n w request (ts @ [t']) reqs) = snd (dispatch ?n w request t' ?reqs1)"
    by (simp add: dispatch_all_append split_beta)
  with kept have stored: "timestamps_of (snd (dispatch_all ?n w request (ts @ [t']) reqs)) ?ip
      = ts"
    by simp
  have "fst (dispatch_all ?n w request (ts @ [t']) reqs)
      = fst (dispatch_all ?n w request ts reqs) @ [fst (dispatch ?n w request t' ?reqs1)]"
    by (simp add: dispatch_all_append split_beta)
  then have "fst (dispatch_all ?n w request (ts @ [t']) reqs)
      = replicate (length ts) (Inr CallNext)
        @ [Inr (TooManyRequests (\<lfloor>hd ts + real_of_int w - t'\<rfloor> + 1))]"
    using run rej ts by simp
  moreover have "1 \<le> \<lfloor>hd ts + real_of_int w - t'\<rfloor> + 1" using ge1 ts by simp
  ultimately show ?thesis
    using dispatch_prunes [OF assms(1,2), of n now reqs0] stored by blast
qed

theorem sliding_window_admits_limit_then_rejects_witness:
  "fst (dispatch_all 2 60 \<lparr>url_path = ''/api/parse'', client_host = Some ''10.0.0.7''\<rparr>
          [1, 2, 23 / 2] [])
   = [Inr CallNext, Inr CallNext, Inr (TooManyRequests 50)]"
proof -
  let ?rq = "\<lparr>url_path = ''/api/parse'', client_host = Some ''10.0.0.7''\<rparr>"
  have a: "url_path ?rq \<notin> set EXCLUDED_PATHS" by (simp add: EXCLUDED_PATHS_def)
  have b: "0 < (60::int)" by simp
  have c: "[1, 2::real] \<noteq> []" by simp
  have d: "\<forall>t\<in>set ([1, 2] @ [23 / 2]). filter (\<lambda>x. t - real_of_int 60 < x)
                              (timestamps_of [] (client_ip_of ?rq)) = []"
    by (simp add: timestamps_of_def)
  have e: "\<forall>t\<in>set ([1, 2] @ [23 / 2::real]). \<forall>u\<in>set [1, 2]. t - real_of_int 60 < u"
    by simp
  have f: "\<lfloor>hd [1, 2::real] + real_of_int 60 - 23 / 2\<rfloor> + 1 = 50"
    by (simp add: floor_eq_iff)
  from sliding_window_admits_limit_then_rejects [OF a b c d e, of 2 0 "[]"]
  show ?thesis unfolding f by (simp add: numeral_2_eq_2)
qed

text \<open>
  The claim's "rounded up" fails where the remaining time is a whole number: with limit
  10 and window 60, ten requests at times 1 to 10 and an eleventh at time 11, the
  remaining time of the oldest is \<open>1 + 60 - 11 = 50\<close>, whose ceiling is 50, and the
  middleware answers \<open>retry_after = 51\<close>.
\<close>

theorem retry_after_is_not_the_ceiling:
  "fst (dispatch 10 60 \<lparr>url_path = ''/api/parse'', client_host = Some ''10.0.0.7''\<rparr> 11
          [(''10.0.0.7'', [1, 2, 3, 4, 5, 6, 7, 8, 9, 10])])
     = Inr (TooManyRequests 51)
   \<and> \<lceil>(1::real) + real_of_int 60 - 11\<rceil> = 50"
  by (simp add: dispatch_def EXCLUDED_PATHS_def client_ip_of_def timestamps_of_def
      py_int_def Let_def)

section \<open>Properties of the listing\<close>

text \<open>
  Claim C9. A cursor that \<open>datetime.fromisoformat\<close> rejects is dropped: no cursor
  clause is applied to any row, nothing is raised on its account, and the answer is
  the one \<open>list_notes\<close> gives with no cursor at all (the first page).
\<close>

theorem invalid_cursor_is_ignored:
  assumes "fromisoformat c = None"
  shows "list_notes fromisoformat isoformat db limit (Some c) from_date to_date sort_by
         = list_notes fromisoformat isoformat db limit None from_date to_date sort_by
       \<and> (\<forall>r. cursor_clause sort_by (parse_date fromisoformat (Some c)) r)"
proof -
  have none: "parse_date fromisoformat (Some c) = None"
    using assms by (simp add: parse_date_def)
  have same: "parse_date fromisoformat (Some c) = parse_date fromisoformat None"
    using none by (simp add: parse_date_def)
  have "list_notes fromisoformat isoformat db limit (Some c) from_date to_date sort_by
      = list_notes fromisoformat isoformat db limit None from_date to_date sort_by"
    unfolding list_notes_def same ..
  then show ?thesis using none by (simp add: cursor_clause_def)
qed

theorem invalid_cursor_is_ignored_witness:
  "list_notes (\<lambda>s. if s = ''2024-01-15T12:00:00'' then Some 5 else None) (\<lambda>d. ''iso'')
     \<lparr>table_rows =
        [\<lparr>row_id = 1, row_image_path = ''a.png'', row_parsed_text = ''alpha'',
          row_created_at = 1, row_status = ''completed''\<rparr>,
         \<lparr>row_id = 2, row_image_path = ''b.png'', row_parsed_text = ''beta'',
          row_created_at = 3, row_status = ''completed''\<rparr>,
         \<lparr>row_id = 3, row_image_path = ''c.png'', row_parsed_text = ''gamma'',
          row_created_at = 7, row_status = ''failed''\<rparr>],
       available = True\<rparr>
     2 (Some ''not-a-date'') None None ''created_at_desc''
   = list_notes (\<lambda>s. if s = ''2024-01-15T12:00:00'' then Some 5 else None) (\<lambda>d. ''iso'')
     \<lparr>table_rows =
        [\<lparr>row_id = 1, row_image_path = ''a.png'', row_parsed_text = ''alpha'',
          row_created_at = 1, row_status = ''completed''\<rparr>,
         \<lparr>row_id = 2, row_image_path = ''b.png'', row_parsed_text = ''beta'',
          row_created_at = 3, row_status = ''completed''\<rparr>,
         \<lparr>row_id = 3, row_image_path = ''c.png'', row_parsed_text = ''gamma'',
          row_created_at = 7, row_status = ''failed''\<rparr>],
       available = True\<rparr>
     2 None None None ''created_at_desc''"
proof -
  let ?f = "\<lambda>s. if s = ''2024-01-15T12:00:00'' then Some (5::int) else None"
  have "?f ''not-a-date'' = None"
    by simp
  then show ?thesis
    using invalid_cursor_is_ignored [of ?f "''not-a-date''"] by blast
qed

section \<open>Divergences between the specification and the code\<close>

text \<open>
  Claim C4. The claim asks that exhausted retries surface as the retry-exhausted
  \<open>LLMServiceError\<close> carrying \<open>retry_after = recovery_timeout\<close>. The \<open>except RetryError\<close>
  clause of \<open>parse_image\<close> builds that error, but the decorator is configured with
  \<open>reraise=True\<close> and raises the last \<open>ConnectionError\<close> itself, so the generic
  \<open>except Exception\<close> clause answers: three attempts that all raise
  \<open>ConnectionError\<close> end in the "unexpected error" \<open>LLMServiceError\<close> with no
  \<open>retry_after\<close>, the very error a single failed attempt (\<open>retry_max_attempts = 1\<close>)
  ends in.
\<close>

theorem exhausted_retries_reported_as_unexpected:
  "fst (parse_image
        \<lparr>validate_and_store_result = Inr (''/s/a.png'', ''a.png''), flush_ok = (\<lambda>k. True),
         api = (\<lambda>n. Inl ConnectionError), retry_max_attempts = 3, now_check = 10,
         now_fail = 11, request_id = ''r1''\<rparr> ''/s/a.png''
        \<lparr>breaker = new_CircuitBreaker 5 60, files = [],
         session_note = None, db_row = None, flush_calls = 0, trace = []\<rparr>)
   = Inl (LLMServiceError ''An unexpected error occurred during text extraction.'' None
            [(''request_id'', CStr ''r1''), (''error_type'', CStr ''ConnectionError'')])
   \<and> fst (parse_image
        \<lparr>validate_and_store_result = Inr (''/s/a.png'', ''a.png''), flush_ok = (\<lambda>k. True),
         api = (\<lambda>n. Inl ConnectionError), retry_max_attempts = 1, now_check = 10,
         now_fail = 11, request_id = ''r1''\<rparr> ''/s/a.png''
        \<lparr>breaker = new_CircuitBreaker 5 60, files = [],
         session_note = None, db_row = None, flush_calls = 0, trace = []\<rparr>)
   = Inl (LLMServiceError ''An unexpected error occurred during text extraction.'' None
            [(''request_id'', CStr ''r1''), (''error_type'', CStr ''ConnectionError'')])"
  by (simp add: parse_image_def breaker_defs call_gemini_with_retry.simps
      retry_if_exception_type_def stop_after_attempt_def new_LLMServiceError_def
      breaker_record_failure_def unexpected_message_def Let_def)

text \<open>
  Claim C1. The claim asks that a \<open>CircuitBreakerOpenError\<close> from the protected call
  mark the note failed. \<open>parse_note\<close> records the failure only in its
  \<open>except (LLMServiceError,)\<close> clause; \<open>CircuitBreakerOpenError\<close> is not an
  \<open>LLMServiceError\<close> and reaches the generic clause, which deletes the stored file and
  re-raises. With the breaker open, the note is created and flushed as processing and
  stays so: status processing, no error message, retry count 0.
\<close>

theorem breaker_open_leaves_note_processing:
  "parse_note
        \<lparr>validate_and_store_result = Inr (''/s/a.png'', ''a.png''), flush_ok = (\<lambda>k. True),
         api = (\<lambda>n. Inr ''text''), retry_max_attempts = 3, now_check = 10, now_fail = 11,
         request_id = ''r1''\<rparr>
        \<lparr>breaker = record_failures [1, 2, 3, 4, 5] (new_CircuitBreaker 5 60), files = [],
         session_note = None, db_row = None, flush_calls = 0, trace = []\<rparr>
   = (Inl (CircuitBreakerOpenError 55),
      \<lparr>breaker = record_failures [1, 2, 3, 4, 5] (new_CircuitBreaker 5 60), files = [],
       session_note = Some \<lparr>image_path = ''a.png'', parsed_text = [],
                             status = ''processing'', error_message = None, retry_count = 0\<rparr>,
       db_row = Some \<lparr>image_path = ''a.png'', parsed_text = [],
                       status = ''processing'', error_message = None, retry_count = 0\<rparr>,
       flush_calls = 1,
       trace = [FileStored ''/s/a.png'', NoteAdded,
                Flushed (Some \<lparr>image_path = ''a.png'', parsed_text = [],
                       status = ''processing'', error_message = None, retry_count = 0\<rparr>),
                FileCleaned ''/s/a.png'']\<rparr>)"
  by (simp add: note_defs parse_image_def breaker_defs Let_def)

end
